theory Spec2Isabelle
  imports Main "HOL-Library.Word"
begin

unbundle bit_operations_syntax

section \<open>The MCP2515 driver core (drivers/net/can/spi/mcp2515.c)\<close>

text \<open>
  A shallow embedding of the asynchronous core of the driver: the completion callbacks
  that chain the SPI messages, the three wake sources (tasklet, timer, transmit entry
  point), the transmit encoder and the receive decoder.  Every C function is a HOL
  function of the same name that takes the private data \<open>struct mcp2515_priv\<close> and
  returns it updated, together with the calls it made to the kernel, in order.
\<close>

subsection \<open>Machine integers and constants\<close>

type_synonym u8 = "8 word"
type_synonym u32 = "32 word"
text \<open>\<open>unsigned long\<close> of the statistics counters, on a 64-bit kernel.\<close>
type_synonym ulong = "64 word"

text \<open>SPI interface instruction set.\<close>

abbreviation (input) MCP2515_INSTRUCTION_WRITE :: u8 where "MCP2515_INSTRUCTION_WRITE \<equiv> 0x02"
abbreviation (input) MCP2515_INSTRUCTION_READ :: u8 where "MCP2515_INSTRUCTION_READ \<equiv> 0x03"
abbreviation (input) MCP2515_INSTRUCTION_BIT_MODIFY :: u8 where "MCP2515_INSTRUCTION_BIT_MODIFY \<equiv> 0x05"

definition MCP2515_INSTRUCTION_LOAD_TXB :: "u8 \<Rightarrow> u8" where
  "MCP2515_INSTRUCTION_LOAD_TXB n = 0x40 + push_bit 1 n"

definition MCP2515_INSTRUCTION_RTS :: "u8 \<Rightarrow> u8" where
  "MCP2515_INSTRUCTION_RTS n = 0x80 + push_bit (unat n) 1"

definition MCP2515_INSTRUCTION_READ_RXB :: "u8 \<Rightarrow> u8" where
  "MCP2515_INSTRUCTION_READ_RXB n = 0x90 + push_bit 2 n"

abbreviation (input) MCP2515_INSTRUCTION_RESET :: u8 where "MCP2515_INSTRUCTION_RESET \<equiv> 0xc0"

text \<open>Registers.\<close>

abbreviation (input) CANSTAT :: u8 where "CANSTAT \<equiv> 0x0e"
abbreviation (input) CANCTRL :: u8 where "CANCTRL \<equiv> 0x0f"
abbreviation (input) CANINTF :: u8 where "CANINTF \<equiv> 0x2c"
abbreviation (input) EFLAG :: u8 where "EFLAG \<equiv> 0x2d"
abbreviation (input) CNF3 :: u8 where "CNF3 \<equiv> 0x28"
abbreviation (input) RXB0CTRL :: u8 where "RXB0CTRL \<equiv> 0x60"

text \<open>CANCTRL bits, CNF2 bits, CANINTE bits, RXBnCTRL bits.\<close>

abbreviation (input) CANCTRL_REQOP_NORMAL :: u8 where "CANCTRL_REQOP_NORMAL \<equiv> 0x00"
abbreviation (input) CANCTRL_REQOP_SLEEP :: u8 where "CANCTRL_REQOP_SLEEP \<equiv> 0x20"
abbreviation (input) CANCTRL_REQOP_LOOPBACK :: u8 where "CANCTRL_REQOP_LOOPBACK \<equiv> 0x40"
abbreviation (input) CANCTRL_REQOP_LISTEN_ONLY :: u8 where "CANCTRL_REQOP_LISTEN_ONLY \<equiv> 0x60"
abbreviation (input) CANCTRL_REQOP_MASK :: u8 where "CANCTRL_REQOP_MASK \<equiv> 0xe0"
abbreviation (input) CANCTRL_OSM :: u8 where "CANCTRL_OSM \<equiv> 0x08"
abbreviation (input) CNF2_BTLMODE :: u8 where "CNF2_BTLMODE \<equiv> 0x80"
abbreviation (input) CNF2_SAM :: u8 where "CNF2_SAM \<equiv> 0x40"
abbreviation (input) CANINTE_RX :: u8 where "CANINTE_RX \<equiv> 0x03"
abbreviation (input) CANINTE_TX :: u8 where "CANINTE_TX \<equiv> 0x1c"
abbreviation (input) CANINTE_ERR :: u8 where "CANINTE_ERR \<equiv> 0x20"
abbreviation (input) RXBCTRL_BUKT :: u8 where "RXBCTRL_BUKT \<equiv> 0x04"
abbreviation (input) RXBCTRL_RXM0 :: u8 where "RXBCTRL_RXM0 \<equiv> 0x20"
abbreviation (input) RXBCTRL_RXM1 :: u8 where "RXBCTRL_RXM1 \<equiv> 0x40"

text \<open>\<open>BIT(n)\<close>, on the byte-wide fields it is used with.\<close>

definition BIT :: "nat \<Rightarrow> u8" where
  "BIT n = push_bit n 1"

text \<open>CANINTF bits, EFLG bits, RXBnSIDL bits, RXBnDLC bits.\<close>

abbreviation (input) CANINTF_RX0IF :: u8 where "CANINTF_RX0IF \<equiv> 0x01"
abbreviation (input) CANINTF_RX1IF :: u8 where "CANINTF_RX1IF \<equiv> 0x02"
abbreviation (input) CANINTF_TX0IF :: u8 where "CANINTF_TX0IF \<equiv> 0x04"
abbreviation (input) CANINTF_TX1IF :: u8 where "CANINTF_TX1IF \<equiv> 0x08"
abbreviation (input) CANINTF_TX2IF :: u8 where "CANINTF_TX2IF \<equiv> 0x10"
abbreviation (input) EFLG_RX0OVR :: u8 where "EFLG_RX0OVR \<equiv> 0x40"
abbreviation (input) EFLG_RX1OVR :: u8 where "EFLG_RX1OVR \<equiv> 0x80"
abbreviation (input) RXBSIDL_IDE :: u8 where "RXBSIDL_IDE \<equiv> 0x08"
abbreviation (input) RXBSIDL_SRR :: u8 where "RXBSIDL_SRR \<equiv> 0x10"
abbreviation (input) RXBDLC_RTR :: u8 where "RXBDLC_RTR \<equiv> 0x40"

text \<open>
  \<open>MCP2515_TX_CNT\<close> is 3.  \<open>TX_MAP_BUSY\<close> is the unparenthesised
  \<open>(1 << MCP2515_TX_CNT) - 1\<close>; at both places where the source uses it, to the right
  of \<open>>=\<close> and of \<open><\<close>, C's precedence reads it as the number 7.
\<close>

abbreviation (input) MCP2515_TX_CNT :: nat where "MCP2515_TX_CNT \<equiv> 3"
abbreviation (input) TX_MAP_BUSY :: u8 where "TX_MAP_BUSY \<equiv> 7"

text \<open>The flags of \<open>can_id\<close> (include/uapi/linux/can.h).\<close>

abbreviation (input) CAN_EFF_FLAG :: u32 where "CAN_EFF_FLAG \<equiv> 0x80000000"
abbreviation (input) CAN_RTR_FLAG :: u32 where "CAN_RTR_FLAG \<equiv> 0x40000000"
abbreviation (input) CAN_ERR_FLAG :: u32 where "CAN_ERR_FLAG \<equiv> 0x20000000"

text \<open>
  The control modes of \<open>priv->can.ctrlmode\<close> (include/uapi/linux/can/netlink.h) and the
  two error numbers the driver returns itself (include/uapi/asm-generic/errno*.h).
\<close>

abbreviation (input) CAN_CTRLMODE_LOOPBACK :: u32 where "CAN_CTRLMODE_LOOPBACK \<equiv> 0x01"
abbreviation (input) CAN_CTRLMODE_LISTENONLY :: u32 where "CAN_CTRLMODE_LISTENONLY \<equiv> 0x02"
abbreviation (input) CAN_CTRLMODE_3_SAMPLES :: u32 where "CAN_CTRLMODE_3_SAMPLES \<equiv> 0x04"
abbreviation (input) CAN_CTRLMODE_ONE_SHOT :: u8 where "CAN_CTRLMODE_ONE_SHOT \<equiv> 0x08"
abbreviation (input) EBUSY :: int where "EBUSY \<equiv> 16"
abbreviation (input) EOPNOTSUPP :: int where "EOPNOTSUPP \<equiv> 95"

subsection \<open>Data\<close>

text \<open>\<open>struct can_frame\<close>: identifier with flags, length, eight data bytes.\<close>

record can_frame =
  can_id :: u32
  can_dlc :: u8
  data :: "u8 list"

text \<open>A socket buffer, as far as the driver looks into it: \<open>skb->data\<close> is the frame.\<close>

datatype sk_buff = Skb (skb_data: can_frame)

text \<open>The counters of \<open>dev->stats\<close> that the core updates.\<close>

record net_device_stats =
  rx_packets :: ulong
  rx_bytes :: ulong
  rx_dropped :: ulong
  rx_over_errors :: ulong
  tx_packets :: ulong
  tx_bytes :: ulong

text \<open>The completion callbacks that \<open>priv->message.complete\<close> can point to.\<close>

datatype completion =
    Read_flags_complete
  | Read_rxb0_complete
  | Read_rxb1_complete
  | Clear_canintf_complete
  | Clear_eflg_complete
  | Load_txb_complete
  | Rts_txb_complete

text \<open>
  \<open>struct mcp2515_priv\<close>, with the fields the core uses.  \<open>skb\<close> is the array
  \<open>struct sk_buff *skb[MCP2515_TX_CNT]\<close> (\<open>None\<close> is \<open>NULL\<close>); \<open>tx_buf\<close> and \<open>rx_buf\<close>
  are the 14-byte transfer buffers; \<open>transfer_len\<close> and \<open>message_complete\<close> are
  \<open>priv->transfer.len\<close> and \<open>priv->message.complete\<close>.
\<close>

record mcp2515_priv =
  canintf :: u8
  eflg :: u8
  skb :: "sk_buff option list"
  busy :: bool
  interrupt :: bool
  netif_queue_stopped :: bool
  loaded_txb :: u8
  tx_busy_map :: u8
  tx_pending_map :: u8
  extra :: bool
  skip :: u32
  transfer_len :: nat
  message_complete :: "completion option"
  rx_buf :: "u8 list"
  tx_buf :: "u8 list"
  stats :: net_device_stats

text \<open>
  The two regulators of the private data, \<open>enum can_mode\<close> and the two values of
  \<open>enum can_state\<close> that the driver assigns (include/uapi/linux/can/netlink.h).
\<close>

datatype regulator = Power | Transceiver

datatype can_mode = CAN_MODE_STOP | CAN_MODE_START | CAN_MODE_SLEEP

datatype can_state = CAN_STATE_ERROR_ACTIVE | CAN_STATE_STOPPED

text \<open>
  What a function does to the rest of the kernel, in the order it does it: its calls,
  and its assignments to \<open>priv->can.state\<close>, a field of \<open>struct can_priv\<close>
  (\<open>Can_state\<close>).  \<open>Spi_async\<close> is the submission of \<open>priv->message\<close>: it carries the
  completion callback and the \<open>transfer.len\<close> bytes of the transmit buffer at the time
  of the call.  \<open>Spi_write\<close> and \<open>Spi_write_then_read\<close> are the synchronous transfers,
  with the bytes written and the number of bytes read.
\<close>

datatype effect =
    Spi_async "completion option" "u8 list"
  | Cancel_delayed_work
  | Mod_timer
  | Netif_stop_queue
  | Netif_wake_queue
  | Can_put_echo_skb sk_buff u8
  | Can_get_echo_skb u8
  | Netif_rx_ni can_frame
  | Netdev_dbg
  | Netif_start_queue
  | Spi_write "u8 list"
  | Spi_write_then_read "u8 list" nat
  | Regulator_enable regulator
  | Regulator_disable regulator
  | Open_candev
  | Close_candev
  | Request_irq
  | Free_irq
  | Schedule
  | Netdev_info
  | Dev_err
  | Can_state can_state

text \<open>
  What C leaves undefined and the source does not exclude: an index into \<open>skb\<close> outside
  0..2, the dereference of a \<open>NULL\<close> socket buffer, a copy of more than the eight data
  bytes of a frame.  A function that reaches one of them stops there.
\<close>

datatype fault =
    Skb_index_out_of_bounds nat
  | Null_skb_dereference
  | Frame_data_overrun

datatype 'r result = Returns 'r | Faults fault

text \<open>
  One run of a function: the private data afterwards (at the fault, when it faults),
  the calls made, and the value returned.
\<close>

datatype 'r run = Run (after: mcp2515_priv) (effects: "effect list") (result: "'r result")

definition and_then :: "'a run \<Rightarrow> (mcp2515_priv \<Rightarrow> 'r run) \<Rightarrow> 'r run" where
  "and_then r f =
     (case result r of
        Faults e \<Rightarrow> Run (after r) (effects r) (Faults e)
      | Returns _ \<Rightarrow>
          (let r' = f (after r)
           in Run (after r') (effects r @ effects r') (result r')))"

text \<open>\<open>memcpy\<close> of the bytes \<open>bs\<close> into \<open>buf\<close> from offset \<open>off\<close>; \<open>memset\<close> of \<open>n\<close> bytes.\<close>

fun memcpy :: "u8 list \<Rightarrow> nat \<Rightarrow> u8 list \<Rightarrow> u8 list" where
  "memcpy buf off [] = buf"
| "memcpy buf off (b # bs) = memcpy (buf[off := b]) (Suc off) bs"

definition memset :: "u8 list \<Rightarrow> u8 \<Rightarrow> nat \<Rightarrow> u8 list" where
  "memset buf c n = memcpy buf 0 (replicate n c)"

subsection \<open>Starting the asynchronous SPI messages\<close>

text \<open>
  \<open>spi_async(priv->spi, &priv->message)\<close>.  Whether the SPI core accepts the message is
  the caller's to say (see \<open>sys_step\<close>); a refusal is logged and nothing else.
\<close>

definition spi_async :: "mcp2515_priv \<Rightarrow> effect" where
  "spi_async s = Spi_async (message_complete s) (take (transfer_len s) (tx_buf s))"

definition mcp2515_spi_async :: "mcp2515_priv \<Rightarrow> unit run" where
  "mcp2515_spi_async s = Run s [spi_async s] (Returns ())"

definition mcp2515_read_flags :: "mcp2515_priv \<Rightarrow> unit run" where
  "mcp2515_read_flags s =
     (let buf = (tx_buf s)[0 := MCP2515_INSTRUCTION_READ, 1 := CANINTF, 2 := 0, 3 := 0];
          s' = s\<lparr>tx_buf := buf, transfer_len := 4,
                 message_complete := Some Read_flags_complete\<rparr>
      in Run s' [Cancel_delayed_work, spi_async s'] (Returns ()))"

definition mcp2515_read_rxb :: "u8 \<Rightarrow> completion \<Rightarrow> mcp2515_priv \<Rightarrow> unit run" where
  "mcp2515_read_rxb instruction complete s =
     (let buf = (memset (tx_buf s) 0 14)[0 := instruction];
          s' = s\<lparr>tx_buf := buf, transfer_len := 14, message_complete := Some complete\<rparr>
      in mcp2515_spi_async s')"

definition mcp2515_read_rxb0 :: "mcp2515_priv \<Rightarrow> unit run" where
  "mcp2515_read_rxb0 s = mcp2515_read_rxb (MCP2515_INSTRUCTION_READ_RXB 0) Read_rxb0_complete s"

definition mcp2515_read_rxb1 :: "mcp2515_priv \<Rightarrow> unit run" where
  "mcp2515_read_rxb1 s = mcp2515_read_rxb (MCP2515_INSTRUCTION_READ_RXB 1) Read_rxb1_complete s"

definition mcp2515_clear_canintf :: "mcp2515_priv \<Rightarrow> unit run" where
  "mcp2515_clear_canintf s =
     (let buf = (tx_buf s)[0 := MCP2515_INSTRUCTION_BIT_MODIFY, 1 := CANINTF,
                           2 := canintf s AND NOT (CANINTF_RX0IF OR CANINTF_RX1IF), 3 := 0];
          s' = s\<lparr>tx_buf := buf, transfer_len := 4,
                 message_complete := Some Clear_canintf_complete\<rparr>
      in mcp2515_spi_async s')"

definition mcp2515_clear_eflg :: "mcp2515_priv \<Rightarrow> unit run" where
  "mcp2515_clear_eflg s =
     (let buf = (tx_buf s)[0 := MCP2515_INSTRUCTION_BIT_MODIFY, 1 := EFLAG,
                           2 := eflg s, 3 := 0];
          s' = s\<lparr>tx_buf := buf, transfer_len := 4,
                 message_complete := Some Clear_eflg_complete\<rparr>
      in mcp2515_spi_async s')"

text \<open>
  \<open>mcp2515_set_txbuf(buf, skb)\<close>, with \<open>buf\<close> the transfer buffer from offset \<open>off\<close> on.
  It gives the buffer as it leaves it, and returns \<open>5 + frame->can_dlc\<close>.  The frame has
  eight data bytes: a longer copy is a fault, and the buffer then holds what was written
  before the copy.
\<close>

definition mcp2515_set_txbuf :: "u8 list \<Rightarrow> nat \<Rightarrow> sk_buff \<Rightarrow> u8 list \<times> nat result" where
  "mcp2515_set_txbuf buf off k =
     (let frame = skb_data k;
          b = (if can_id frame AND CAN_EFF_FLAG \<noteq> 0
               then buf[off := ucast (drop_bit 21 (can_id frame)),
                        off + 1 := ucast ((drop_bit 13 (can_id frame) AND 0xe0) OR 8 OR
                                          (drop_bit 16 (can_id frame) AND 3)),
                        off + 2 := ucast (drop_bit 8 (can_id frame)),
                        off + 3 := ucast (can_id frame)]
               else buf[off := ucast (drop_bit 3 (can_id frame)),
                        off + 1 := ucast (push_bit 5 (can_id frame)),
                        off + 2 := 0,
                        off + 3 := 0]);
          b = b[off + 4 := can_dlc frame];
          b = (if can_id frame AND CAN_RTR_FLAG \<noteq> 0
               then b[off + 4 := b ! (off + 4) OR 0x40] else b)
      in if 8 < unat (can_dlc frame) then (b, Faults Frame_data_overrun)
         else (memcpy b (off + 5) (take (unat (can_dlc frame)) (data frame)),
               Returns (5 + unat (can_dlc frame))))"

text \<open>
  \<open>mcp2515_load_txb(skb, dev, abc)\<close>.  The socket buffer is dereferenced inside
  \<open>mcp2515_set_txbuf\<close>, after the instruction byte is written: a \<open>NULL\<close> faults there.
\<close>

definition mcp2515_load_txb :: "sk_buff option \<Rightarrow> nat \<Rightarrow> mcp2515_priv \<Rightarrow> unit run" where
  "mcp2515_load_txb skbp abc s =
     (let s1 = s\<lparr>tx_buf := (tx_buf s)[0 := MCP2515_INSTRUCTION_LOAD_TXB (of_nat abc)]\<rparr>
      in case skbp of
           None \<Rightarrow> Run s1 [] (Faults Null_skb_dereference)
         | Some k \<Rightarrow>
             (case mcp2515_set_txbuf (tx_buf s1) 1 k of
                (buf, Faults e) \<Rightarrow> Run (s1\<lparr>tx_buf := buf\<rparr>) [] (Faults e)
              | (buf, Returns n) \<Rightarrow>
                  (let s2 = s1\<lparr>tx_buf := buf, transfer_len := n + 1,
                               message_complete := Some Load_txb_complete,
                               loaded_txb := of_nat abc\<rparr>
                   in and_then (Run s2 [Can_put_echo_skb k (of_nat abc)] (Returns ()))
                        mcp2515_spi_async)))"

definition mcp2515_rts_txb :: "mcp2515_priv \<Rightarrow> unit run" where
  "mcp2515_rts_txb s =
     (let buf = (tx_buf s)[0 := MCP2515_INSTRUCTION_RTS (loaded_txb s)];
          s' = s\<lparr>tx_buf := buf, transfer_len := 1,
                 message_complete := Some Rts_txb_complete\<rparr>
      in mcp2515_spi_async s')"

subsection \<open>The completion callbacks\<close>

text \<open>
  The loop of \<open>mcp2515_read_flags_complete\<close> and \<open>mcp2515_transmit_or_read_flags\<close> over
  \<open>pending_tx_id\<close>: it leaves with the first index below \<open>MCP2515_TX_CNT\<close> whose bit is
  set in the pending map, that bit cleared, or with \<open>MCP2515_TX_CNT\<close> and the map as it
  was.
\<close>

function find_pending_tx :: "nat \<Rightarrow> u8 \<Rightarrow> nat \<times> u8" where
  "find_pending_tx pending_tx_id m =
     (if pending_tx_id < MCP2515_TX_CNT
      then (if BIT pending_tx_id AND m \<noteq> 0
            then (pending_tx_id, m AND NOT (BIT pending_tx_id))
            else find_pending_tx (pending_tx_id + 1) m)
      else (pending_tx_id, m))"
  by pat_completeness auto
termination
  by (relation "measure (\<lambda>(i, m). MCP2515_TX_CNT - i)") auto

declare find_pending_tx.simps [simp del]

text \<open>
  The branch both callers take when the pending map is not zero: dequeue, then load
  \<open>priv->skb[pending_tx_id]\<close>.
\<close>

definition load_pending_tx :: "mcp2515_priv \<Rightarrow> unit run" where
  "load_pending_tx s =
     (let (pending_tx_id, m) = find_pending_tx 0 (tx_pending_map s);
          s' = s\<lparr>tx_pending_map := m\<rparr>
      in if pending_tx_id < MCP2515_TX_CNT
         then mcp2515_load_txb (skb s' ! pending_tx_id) pending_tx_id s'
         else Run s' [] (Faults (Skb_index_out_of_bounds pending_tx_id)))"

definition mcp2515_read_flags_complete :: "mcp2515_priv \<Rightarrow> unit run" where
  "mcp2515_read_flags_complete s0 =
     (let s1 = s0\<lparr>canintf := rx_buf s0 ! 2, eflg := rx_buf s0 ! 3\<rparr>;
          noted = (if extra s1
                   then Run (s1\<lparr>extra := False\<rparr>)
                          (if canintf s1 \<noteq> 0 \<or> eflg s1 \<noteq> 0 then [Netdev_dbg] else [])
                          (Returns ())
                   else Run s1 [] (Returns ()))
      in and_then noted
           (\<lambda>s. if canintf s AND CANINTF_RX0IF \<noteq> 0 then mcp2515_read_rxb0 s
                else if canintf s AND CANINTF_RX1IF \<noteq> 0 then mcp2515_read_rxb1 s
                else if canintf s \<noteq> 0 then mcp2515_clear_canintf s
                else if tx_pending_map s \<noteq> 0 then load_pending_tx s
                else if interrupt s then mcp2515_read_flags (s\<lparr>interrupt := False\<rparr>)
                else Run (s\<lparr>busy := False\<rparr>) [Mod_timer] (Returns ())))"

text \<open>
  Modelled from the spec: \<open>get_can_dlc\<close> is a macro of include/linux/can/dev.h, which is
  not among the sources; the spec has the length "clamped to a maximum of 8".
\<close>

definition get_can_dlc :: "u8 \<Rightarrow> u8" where
  "get_can_dlc i = min i 8"

text \<open>
  \<open>mcp2515_read_rxb_complete\<close>.  \<open>alloc\<close> is what \<open>alloc_can_skb\<close> hands back: the frame
  of a fresh socket buffer, or \<open>None\<close> when the allocation fails.
\<close>

definition mcp2515_read_rxb_complete :: "can_frame option \<Rightarrow> mcp2515_priv \<Rightarrow> unit run" where
  "mcp2515_read_rxb_complete alloc s =
     (case alloc of
        None \<Rightarrow>
          Run (s\<lparr>stats := (stats s)\<lparr>rx_dropped := rx_dropped (stats s) + 1\<rparr>\<rparr>) [] (Returns ())
      | Some frame0 \<Rightarrow>
          (let buf = rx_buf s;
               frame =
                 (if buf ! 2 AND RXBSIDL_IDE \<noteq> 0
                  then (let f = frame0\<lparr>can_id :=
                                  push_bit 21 (ucast (buf ! 1)) OR
                                  push_bit 13 (ucast (buf ! 2 AND 0xe0)) OR
                                  push_bit 16 (ucast (buf ! 2 AND 3)) OR
                                  push_bit 8 (ucast (buf ! 3)) OR
                                  ucast (buf ! 4) OR
                                  CAN_EFF_FLAG\<rparr>
                        in if buf ! 5 AND RXBDLC_RTR \<noteq> 0
                           then f\<lparr>can_id := can_id f OR CAN_RTR_FLAG\<rparr> else f)
                  else (let f = frame0\<lparr>can_id :=
                                  push_bit 3 (ucast (buf ! 1)) OR ucast (drop_bit 5 (buf ! 2))\<rparr>
                        in if buf ! 2 AND RXBSIDL_SRR \<noteq> 0
                           then f\<lparr>can_id := can_id f OR CAN_RTR_FLAG\<rparr> else f));
               frame = frame\<lparr>can_dlc := get_can_dlc (buf ! 5 AND 0xf)\<rparr>;
               frame = (if can_id frame AND CAN_RTR_FLAG = 0
                        then frame\<lparr>data := memcpy (data frame) 0
                                              (take (unat (can_dlc frame)) (drop 6 buf))\<rparr>
                        else frame);
               st = (stats s)\<lparr>rx_packets := rx_packets (stats s) + 1,
                               rx_bytes := rx_bytes (stats s) + ucast (can_dlc frame)\<rparr>
           in Run (s\<lparr>stats := st\<rparr>) [Netif_rx_ni frame] (Returns ())))"

definition mcp2515_transmit_or_read_flags :: "mcp2515_priv \<Rightarrow> unit run" where
  "mcp2515_transmit_or_read_flags s =
     (if tx_pending_map s \<noteq> 0 then load_pending_tx s else mcp2515_read_flags s)"

definition mcp2515_read_rxb0_complete :: "can_frame option \<Rightarrow> mcp2515_priv \<Rightarrow> unit run" where
  "mcp2515_read_rxb0_complete alloc s =
     and_then (mcp2515_read_rxb_complete alloc s)
       (\<lambda>s. if canintf s AND CANINTF_RX1IF \<noteq> 0 then mcp2515_read_rxb1 s
            else mcp2515_transmit_or_read_flags s)"

definition mcp2515_read_rxb1_complete :: "can_frame option \<Rightarrow> mcp2515_priv \<Rightarrow> unit run" where
  "mcp2515_read_rxb1_complete alloc s =
     and_then (mcp2515_read_rxb_complete alloc s) mcp2515_transmit_or_read_flags"

definition mcp2515_update_device_stats :: "sk_buff option \<Rightarrow> u8 \<Rightarrow> mcp2515_priv \<Rightarrow> unit run" where
  "mcp2515_update_device_stats skbp idx s =
     (case skbp of
        None \<Rightarrow> Run s [] (Returns ())
      | Some k \<Rightarrow>
          Run (s\<lparr>stats := (stats s)\<lparr>tx_bytes := tx_bytes (stats s) + ucast (can_dlc (skb_data k)),
                                   tx_packets := tx_packets (stats s) + 1\<rparr>\<rparr>)
            [Can_get_echo_skb idx] (Returns ()))"

text \<open>
  One of the three blocks of \<open>mcp2515_clear_canintf_complete\<close>, for the transmit buffer
  \<open>i\<close> and its flag \<open>CANINTF_TXiIF\<close>.
\<close>

definition tx_done :: "nat \<Rightarrow> u8 \<Rightarrow> mcp2515_priv \<Rightarrow> unit run" where
  "tx_done i txif s =
     (if canintf s AND txif \<noteq> 0
      then and_then (mcp2515_update_device_stats (skb s ! i) (of_nat i) s)
             (\<lambda>s. Run (s\<lparr>skb := (skb s)[i := None],
                         tx_busy_map := tx_busy_map s AND NOT (BIT i)\<rparr>) [] (Returns ()))
      else Run s [] (Returns ()))"

definition mcp2515_clear_canintf_complete :: "mcp2515_priv \<Rightarrow> unit run" where
  "mcp2515_clear_canintf_complete s =
     and_then (tx_done 0 CANINTF_TX0IF s) (\<lambda>s.
     and_then (tx_done 1 CANINTF_TX1IF s) (\<lambda>s.
     and_then (tx_done 2 CANINTF_TX2IF s) (\<lambda>s.
     and_then (if netif_queue_stopped s \<and> tx_busy_map s < TX_MAP_BUSY
               then Run (s\<lparr>netif_queue_stopped := False\<rparr>) [Netif_wake_queue] (Returns ())
               else Run s [] (Returns ())) (\<lambda>s.
     if eflg s \<noteq> 0 then mcp2515_clear_eflg s else mcp2515_read_flags s))))"

definition mcp2515_clear_eflg_complete :: "mcp2515_priv \<Rightarrow> unit run" where
  "mcp2515_clear_eflg_complete s =
     (let s' = (if eflg s AND (EFLG_RX0OVR OR EFLG_RX1OVR) \<noteq> 0
                then s\<lparr>stats := (stats s)\<lparr>rx_over_errors := rx_over_errors (stats s) + 1\<rparr>\<rparr>
                else s)
      in mcp2515_read_flags s')"

definition mcp2515_load_txb_complete :: "mcp2515_priv \<Rightarrow> unit run" where
  "mcp2515_load_txb_complete s = mcp2515_rts_txb s"

definition mcp2515_rts_txb_complete :: "mcp2515_priv \<Rightarrow> unit run" where
  "mcp2515_rts_txb_complete s = mcp2515_read_flags s"

subsection \<open>The wake sources\<close>

definition mcp2515_softirq_handler :: "mcp2515_priv \<Rightarrow> unit run" where
  "mcp2515_softirq_handler s =
     (if busy s then Run (s\<lparr>interrupt := True\<rparr>) [] (Returns ())
      else mcp2515_read_flags (s\<lparr>busy := True\<rparr>))"

definition read_flags_timer_cb :: "mcp2515_priv \<Rightarrow> unit run" where
  "read_flags_timer_cb s =
     (if busy s
      then (let s' = s\<lparr>skip := skip s + 1\<rparr>
            in Run s' (if 10 < skip s' then [Netdev_dbg] else []) (Returns ()))
      else mcp2515_read_flags (s\<lparr>busy := True, skip := 0, extra := True\<rparr>))"

text \<open>\<open>netdev_tx_t\<close> (include/linux/netdevice.h).\<close>

datatype netdev_tx = NETDEV_TX_OK | NETDEV_TX_BUSY

text \<open>
  The loop of \<open>mcp2515_start_xmit\<close> over \<open>tx_idx\<close>: it leaves with the first index below
  \<open>MCP2515_TX_CNT\<close> whose bit is clear in the busy map, that bit set, or with
  \<open>MCP2515_TX_CNT\<close> and the map as it was.
\<close>

function find_free_tx :: "nat \<Rightarrow> u8 \<Rightarrow> nat \<times> u8" where
  "find_free_tx tx_idx m =
     (if tx_idx < MCP2515_TX_CNT
      then (if BIT tx_idx AND m = 0
            then (tx_idx, m OR BIT tx_idx)
            else find_free_tx (tx_idx + 1) m)
      else (tx_idx, m))"
  by pat_completeness auto
termination
  by (relation "measure (\<lambda>(i, m). MCP2515_TX_CNT - i)") auto

declare find_free_tx.simps [simp del]

text \<open>
  \<open>mcp2515_start_xmit(skb, dev)\<close>.  \<open>dropped\<close> is the answer of
  \<open>can_dropped_invalid_skb(dev, skb)\<close>, a function of include/linux/can/dev.h.
\<close>

definition mcp2515_start_xmit :: "bool \<Rightarrow> sk_buff \<Rightarrow> mcp2515_priv \<Rightarrow> netdev_tx run" where
  "mcp2515_start_xmit dropped k s =
     (if dropped then Run s [] (Returns NETDEV_TX_OK)
      else
        (let (tx_idx, m) = find_free_tx 0 (tx_busy_map s);
             s1 = s\<lparr>tx_busy_map := m\<rparr>;
             stop = (if TX_MAP_BUSY \<le> tx_busy_map s1
                     then Run (s1\<lparr>netif_queue_stopped := True\<rparr>) [Netif_stop_queue] (Returns ())
                     else Run s1 [] (Returns ()))
         in and_then stop
              (\<lambda>s. if MCP2515_TX_CNT \<le> tx_idx
                   then Run s [] (Faults (Skb_index_out_of_bounds tx_idx))
                   else
                     (let s2 = s\<lparr>skb := (skb s)[tx_idx := Some k]\<rparr>
                      in if busy s2
                         then Run (s2\<lparr>tx_pending_map := tx_pending_map s2 OR BIT tx_idx\<rparr>) []
                                (Returns NETDEV_TX_OK)
                         else and_then (mcp2515_load_txb (Some k) tx_idx (s2\<lparr>busy := True\<rparr>))
                                (\<lambda>s. Run s [] (Returns NETDEV_TX_OK))))))"

subsection \<open>The transmit entry point, statement by statement\<close>

text \<open>
  \<open>mcp2515_clear_canintf_complete\<close> takes no lock, and it writes \<open>skb\<close>, \<open>tx_busy_map\<close>
  and \<open>netif_queue_stopped\<close>, which \<open>mcp2515_start_xmit\<close> reads and writes under the
  lock: that callback can run between two statements of the transmit entry point.  So
  the statements of \<open>mcp2515_start_xmit\<close> after the loop are given one by one.  The
  places between them:
  before the test \<open>priv->tx_busy_map >= TX_MAP_BUSY\<close>, before
  \<open>priv->netif_queue_stopped = 1\<close>, before \<open>netif_stop_queue(dev)\<close>, before
  \<open>priv->skb[tx_idx] = skb\<close>, and before the test of \<open>priv->busy\<close> (from there to the
  return nothing is shared with a callback that takes no lock).
\<close>

datatype xmit_pc = Xmit_test | Xmit_flag | Xmit_stop | Xmit_store | Xmit_queue

text \<open>The lock is taken and the loop has run: the slot index and the private data.\<close>

definition xmit_enter :: "mcp2515_priv \<Rightarrow> nat \<times> mcp2515_priv" where
  "xmit_enter s =
     (let (tx_idx, m) = find_free_tx 0 (tx_busy_map s) in (tx_idx, s\<lparr>tx_busy_map := m\<rparr>))"

text \<open>
  One statement, from the place \<open>pc\<close>: it returns the next place, or \<open>None\<close> when
  \<open>mcp2515_start_xmit\<close> has returned \<open>NETDEV_TX_OK\<close>.
\<close>

fun xmit_step :: "xmit_pc \<Rightarrow> nat \<Rightarrow> sk_buff \<Rightarrow> mcp2515_priv \<Rightarrow> xmit_pc option run" where
  "xmit_step Xmit_test tx_idx k s =
     Run s [] (Returns (Some (if TX_MAP_BUSY \<le> tx_busy_map s then Xmit_flag else Xmit_store)))"
| "xmit_step Xmit_flag tx_idx k s =
     Run (s\<lparr>netif_queue_stopped := True\<rparr>) [] (Returns (Some Xmit_stop))"
| "xmit_step Xmit_stop tx_idx k s =
     Run s [Netif_stop_queue] (Returns (Some Xmit_store))"
| "xmit_step Xmit_store tx_idx k s =
     (if MCP2515_TX_CNT \<le> tx_idx
      then Run s [] (Faults (Skb_index_out_of_bounds tx_idx))
      else Run (s\<lparr>skb := (skb s)[tx_idx := Some k]\<rparr>) [] (Returns (Some Xmit_queue)))"
| "xmit_step Xmit_queue tx_idx k s =
     (if busy s
      then Run (s\<lparr>tx_pending_map := tx_pending_map s OR BIT tx_idx\<rparr>) [] (Returns None)
      else and_then (mcp2515_load_txb (Some k) tx_idx (s\<lparr>busy := True\<rparr>))
             (\<lambda>s. Run s [] (Returns None)))"

subsection \<open>Bringing the interface up and down\<close>

text \<open>
  What \<open>mcp2515_open\<close>, \<open>mcp2515_close\<close> and \<open>mcp2515_set_mode\<close> take from outside the
  private data of the model: whether the two regulators are there
  (\<open>!IS_ERR_OR_NULL(reg)\<close>), the answers of \<open>open_candev\<close> and \<open>request_irq\<close>, the bit
  timing and the control mode of \<open>struct can_priv\<close>, the answers of the synchronous
  transfers of \<open>mcp2515_chip_start\<close>, and what the reads of CANSTAT bring: the first
  (answer and register value), and those that follow before
  \<open>time_after(jiffies, timeout)\<close> holds.
\<close>

record environment =
  power_present :: bool
  transceiver_present :: bool
  open_candev_err :: int
  request_irq_err :: int
  phase_seg1 :: u32
  phase_seg2 :: u32
  prop_seg :: u32
  sjw :: u32
  brp :: u32
  ctrlmode :: u32
  hw_reset_err :: int
  cnf_write_err :: int
  rxbctrl_write_err :: int
  canstat_first :: "int \<times> u8"
  canstat_more :: "(int \<times> u8) list"

text \<open>
  \<open>mcp2515_switch_regulator(reg, on)\<close>, \<open>mcp2515_hw_reset\<close> and \<open>mcp2515_hw_sleep\<close>, by
  the calls they make; the callers ignore what the first and the last return.
\<close>

definition mcp2515_switch_regulator :: "bool \<Rightarrow> regulator \<Rightarrow> bool \<Rightarrow> effect list" where
  "mcp2515_switch_regulator present reg on =
     (if \<not> present then [] else if on then [Regulator_enable reg] else [Regulator_disable reg])"

definition mcp2515_hw_reset :: "effect list" where
  "mcp2515_hw_reset = [Spi_write [MCP2515_INSTRUCTION_RESET]]"

definition mcp2515_hw_sleep :: "effect list" where
  "mcp2515_hw_sleep = [Spi_write [MCP2515_INSTRUCTION_WRITE, CANCTRL, CANCTRL_REQOP_SLEEP]]"

text \<open>
  The loop of \<open>mcp2515_chip_start\<close> that waits for the requested mode: the calls made,
  and 0 or the error.
\<close>

fun wait_for_mode :: "u8 \<Rightarrow> int \<times> u8 \<Rightarrow> (int \<times> u8) list \<Rightarrow> effect list \<times> int" where
  "wait_for_mode mode (err, reg_stat) polls =
     (if err \<noteq> 0 then ([Spi_write_then_read [MCP2515_INSTRUCTION_READ, CANSTAT] 1], err)
      else if reg_stat AND CANCTRL_REQOP_MASK = mode
      then ([Spi_write_then_read [MCP2515_INSTRUCTION_READ, CANSTAT] 1], 0)
      else (case polls of
              [] \<Rightarrow> ([Spi_write_then_read [MCP2515_INSTRUCTION_READ, CANSTAT] 1, Schedule, Dev_err],
                     - EBUSY)
            | p # ps \<Rightarrow>
                (let (es, e) = wait_for_mode mode p ps
                 in (Spi_write_then_read [MCP2515_INSTRUCTION_READ, CANSTAT] 1 # Schedule # es, e))))"

text \<open>
  \<open>mcp2515_chip_start(dev)\<close>.  It writes its register values through the transfer buffer
  of the asynchronous message.
\<close>

definition mcp2515_chip_start :: "environment \<Rightarrow> mcp2515_priv \<Rightarrow> int run" where
  "mcp2515_chip_start env s =
     (if hw_reset_err env \<noteq> 0 then Run s mcp2515_hw_reset (Returns (hw_reset_err env))
      else
        (let buf = (tx_buf s)
                     [0 := MCP2515_INSTRUCTION_WRITE, 1 := CNF3,
                      2 := ucast (phase_seg2 env - 1),
                      3 := CNF2_BTLMODE OR
                           (if ctrlmode env AND CAN_CTRLMODE_3_SAMPLES \<noteq> 0 then CNF2_SAM else 0) OR
                           ucast (push_bit 3 (phase_seg1 env - 1)) OR ucast (prop_seg env - 1),
                      4 := ucast (push_bit 6 (sjw env - 1)) OR ucast (brp env - 1),
                      5 := CANINTE_RX OR CANINTE_TX OR CANINTE_ERR];
             s1 = s\<lparr>tx_buf := buf\<rparr>;
             cnf = mcp2515_hw_reset @ [Netdev_info, Spi_write (take 6 buf)]
         in if cnf_write_err env \<noteq> 0 then Run s1 cnf (Returns (cnf_write_err env))
            else
              (let buf = buf[1 := RXB0CTRL,
                             2 := RXBCTRL_RXM1 OR RXBCTRL_RXM0 OR RXBCTRL_BUKT,
                             3 := RXBCTRL_RXM1 OR RXBCTRL_RXM0];
                   s2 = s1\<lparr>tx_buf := buf\<rparr>;
                   rxb = cnf @ [Spi_write (take 4 buf)]
               in if rxbctrl_write_err env \<noteq> 0 then Run s2 rxb (Returns (rxbctrl_write_err env))
                  else
                    (let mode = (if ctrlmode env AND CAN_CTRLMODE_LOOPBACK \<noteq> 0
                                 then CANCTRL_REQOP_LOOPBACK
                                 else if ctrlmode env AND CAN_CTRLMODE_LISTENONLY \<noteq> 0
                                 then CANCTRL_REQOP_LISTEN_ONLY
                                 else CANCTRL_REQOP_NORMAL);
                         mode = (if mode AND CAN_CTRLMODE_ONE_SHOT \<noteq> 0
                                 then mode OR CANCTRL_OSM else mode);
                         (polls, err) = wait_for_mode mode (canstat_first env) (canstat_more env);
                         es = rxb @ mcp2515_switch_regulator (transceiver_present env) Transceiver True @
                              [Spi_write [MCP2515_INSTRUCTION_WRITE, CANCTRL, mode]] @ polls
                     in if err = 0
                        then Run s2 (es @ [Can_state CAN_STATE_ERROR_ACTIVE]) (Returns 0)
                        else Run s2
                               (es @ mcp2515_switch_regulator (transceiver_present env) Transceiver False)
                               (Returns err)))))"

definition mcp2515_chip_stop :: "environment \<Rightarrow> effect list" where
  "mcp2515_chip_stop env =
     mcp2515_hw_reset @ mcp2515_switch_regulator (transceiver_present env) Transceiver False @
     [Can_state CAN_STATE_STOPPED]"

text \<open>
  \<open>mcp2515_open(dev)\<close>, \<open>mcp2515_close(dev)\<close> and \<open>mcp2515_set_mode(dev, mode)\<close>.  None
  of them touches the slots, the maps or the flags of the private data.
\<close>

definition mcp2515_open :: "environment \<Rightarrow> mcp2515_priv \<Rightarrow> int run" where
  "mcp2515_open env s =
     (let up = mcp2515_switch_regulator (power_present env) Power True @ [Open_candev];
          failed_open = mcp2515_hw_sleep @ mcp2515_switch_regulator (power_present env) Power False
      in if open_candev_err env \<noteq> 0 then Run s (up @ failed_open) (Returns (open_candev_err env))
         else if request_irq_err env \<noteq> 0
         then Run s (up @ [Request_irq, Close_candev] @ failed_open) (Returns (request_irq_err env))
         else
           (let r = mcp2515_chip_start env s
            in case result r of
                 Faults e \<Rightarrow> Run (after r) (up @ [Request_irq] @ effects r) (Faults e)
               | Returns err \<Rightarrow>
                   if err \<noteq> 0
                   then Run (after r)
                          (up @ [Request_irq] @ effects r @ [Free_irq, Close_candev] @ failed_open)
                          (Returns err)
                   else Run (after r) (up @ [Request_irq] @ effects r @ [Netif_start_queue])
                          (Returns 0)))"

definition mcp2515_close :: "environment \<Rightarrow> mcp2515_priv \<Rightarrow> int run" where
  "mcp2515_close env s =
     Run s
       ([Netif_stop_queue] @ mcp2515_chip_stop env @ [Free_irq] @ mcp2515_hw_sleep @
        mcp2515_switch_regulator (power_present env) Power False @ [Close_candev])
       (Returns 0)"

definition mcp2515_set_mode :: "environment \<Rightarrow> can_mode \<Rightarrow> mcp2515_priv \<Rightarrow> int run" where
  "mcp2515_set_mode env mode s =
     (case mode of
        CAN_MODE_START \<Rightarrow>
          (let r = mcp2515_chip_start env s
           in case result r of
                Faults e \<Rightarrow> Run (after r) (effects r) (Faults e)
              | Returns err \<Rightarrow>
                  if err \<noteq> 0 then Run (after r) (effects r) (Returns err)
                  else Run (after r) (effects r @ [Netif_wake_queue]) (Returns 0))
      | _ \<Rightarrow> Run s [] (Returns (- EOPNOTSUPP)))"

subsection \<open>The session: wake sources, completions and the interface, interleaved\<close>

text \<open>
  The private data as \<open>alloc_candev\<close> leaves it (zeroed), with the three-entry slot
  array and the two 14-byte transfer buffers.
\<close>

definition priv_zero :: mcp2515_priv where
  "priv_zero =
     \<lparr>canintf = 0, eflg = 0, skb = replicate MCP2515_TX_CNT None, busy = False,
      interrupt = False, netif_queue_stopped = False, loaded_txb = 0, tx_busy_map = 0,
      tx_pending_map = 0, extra = False, skip = 0, transfer_len = 0,
      message_complete = None, rx_buf = replicate 14 0, tx_buf = replicate 14 0,
      stats = \<lparr>rx_packets = 0, rx_bytes = 0, rx_dropped = 0, rx_over_errors = 0,
                tx_packets = 0, tx_bytes = 0\<rparr>\<rparr>"

text \<open>
  A session is the private data together with what the driver does not hold itself: the
  messages the SPI core has accepted and not yet completed (by their callbacks, oldest
  first), the fault that stopped the session if one did, all calls made so far, and the
  call of \<open>mcp2515_start_xmit\<close> that is between two of its statements, if one is: the
  place, the slot index and the socket buffer.  That call holds the lock.
\<close>

record session =
  priv :: mcp2515_priv
  outstanding :: "completion option list"
  crashed :: "fault option"
  trace :: "effect list"
  xmit :: "(xmit_pc \<times> nat \<times> sk_buff) option"

definition session_init :: session where
  "session_init = \<lparr>priv = priv_zero, outstanding = [], crashed = None, trace = [], xmit = None\<rparr>"

text \<open>
  What can happen to a session.  \<open>Interrupt\<close> is a run of the tasklet
  \<open>mcp2515_softirq_handler\<close>, \<open>Timer_expiry\<close> a run of \<open>read_flags_timer_cb\<close>,
  \<open>Host_xmit\<close> a call of \<open>mcp2515_start_xmit\<close> (with the answer of
  \<open>can_dropped_invalid_skb\<close>), \<open>Spi_complete\<close> the completion of the oldest outstanding
  message: the SPI core has written the response bytes into the receive buffer and calls
  the callback (the second argument is what \<open>alloc_can_skb\<close> would hand back).
  \<open>Dev_open\<close>, \<open>Dev_close\<close> and \<open>Dev_set_mode\<close> are calls of \<open>mcp2515_open\<close>,
  \<open>mcp2515_close\<close> and \<open>mcp2515_set_mode\<close>.  Each of these runs as one step.

  \<open>Xmit_enter\<close> and \<open>Xmit_advance\<close> run \<open>mcp2515_start_xmit\<close> in pieces: the first up to
  the end of the loop, each of the second one statement more.  Between them the call
  holds the lock, and what needs the lock cannot happen: the other wake sources, a second
  transmit call (the stack serialises them), and a completion whose callback would take
  the lock on its way.  A completion whose callback takes no lock can happen, and so can
  the three calls for the interface.  A callback itself is one step, and so are the parts
  of the other handlers outside the lock: finer interleavings than these are not
  modelled.
\<close>

datatype event =
    Interrupt
  | Timer_expiry
  | Host_xmit bool sk_buff
  | Spi_complete "u8 list" "can_frame option"
  | Xmit_enter bool sk_buff
  | Xmit_advance
  | Dev_open environment
  | Dev_close environment
  | Dev_set_mode can_mode environment

text \<open>The callbacks of the messages submitted by a list of calls.\<close>

fun submitted :: "effect list \<Rightarrow> completion option list" where
  "submitted [] = []"
| "submitted (Spi_async c bs # es) = c # submitted es"
| "submitted (e # es) = submitted es"

text \<open>The call of \<open>priv->message.complete\<close>.\<close>

fun complete :: "completion option \<Rightarrow> can_frame option \<Rightarrow> mcp2515_priv \<Rightarrow> unit run" where
  "complete None alloc s = Run s [] (Returns ())"
| "complete (Some Read_flags_complete) alloc s = mcp2515_read_flags_complete s"
| "complete (Some Read_rxb0_complete) alloc s = mcp2515_read_rxb0_complete alloc s"
| "complete (Some Read_rxb1_complete) alloc s = mcp2515_read_rxb1_complete alloc s"
| "complete (Some Clear_canintf_complete) alloc s = mcp2515_clear_canintf_complete s"
| "complete (Some Clear_eflg_complete) alloc s = mcp2515_clear_eflg_complete s"
| "complete (Some Load_txb_complete) alloc s = mcp2515_load_txb_complete s"
| "complete (Some Rts_txb_complete) alloc s = mcp2515_rts_txb_complete s"

text \<open>
  Whether a callback takes the lock on its way, from the private data it starts with:
  \<open>mcp2515_read_flags_complete\<close> does when the interrupt flags it has read are zero,
  \<open>mcp2515_read_rxb0_complete\<close> when the flag of receive buffer 1 is clear (then it
  calls \<open>mcp2515_transmit_or_read_flags\<close>), \<open>mcp2515_read_rxb1_complete\<close> always, the
  others never.
\<close>

fun takes_lock :: "completion option \<Rightarrow> mcp2515_priv \<Rightarrow> bool" where
  "takes_lock (Some Read_flags_complete) s = (rx_buf s ! 2 = 0)"
| "takes_lock (Some Read_rxb0_complete) s = (canintf s AND CANINTF_RX1IF = 0)"
| "takes_lock (Some Read_rxb1_complete) s = True"
| "takes_lock cb s = False"

text \<open>The receive buffer after the SPI core has written the response \<open>rx\<close> into it.\<close>

definition received :: "u8 list \<Rightarrow> mcp2515_priv \<Rightarrow> mcp2515_priv" where
  "received rx s = s\<lparr>rx_buf := memcpy (rx_buf s) 0 (take (transfer_len s) rx)\<rparr>"

text \<open>Whether an event has to wait while a transmit call holds the lock.\<close>

fun waits :: "event \<Rightarrow> session \<Rightarrow> bool" where
  "waits Interrupt x = True"
| "waits Timer_expiry x = True"
| "waits (Host_xmit dropped k) x = True"
| "waits (Xmit_enter dropped k) x = True"
| "waits (Spi_complete rx alloc) x =
     (case outstanding x of [] \<Rightarrow> False | cb # rest \<Rightarrow> takes_lock cb (received rx (priv x)))"
| "waits ev x = False"

text \<open>
  The session after a handler has run: \<open>accepted\<close> says whether the SPI core took the
  message the handler submitted, if it submitted one.
\<close>

definition settle :: "'r run \<Rightarrow> bool \<Rightarrow> session \<Rightarrow> session" where
  "settle r accepted x =
     x\<lparr>priv := after r,
       outstanding := outstanding x @ (if accepted then submitted (effects r) else []),
       crashed := (case result r of Faults e \<Rightarrow> Some e | Returns _ \<Rightarrow> crashed x),
       trace := trace x @ effects r\<rparr>"

text \<open>One more statement of the transmit call that is between its statements.\<close>

definition advance :: "bool \<Rightarrow> session \<Rightarrow> session" where
  "advance accepted x =
     (case xmit x of
        None \<Rightarrow> x
      | Some (pc, tx_idx, k) \<Rightarrow>
          (let r = xmit_step pc tx_idx k (priv x)
           in settle r accepted
                (x\<lparr>xmit := (case result r of
                               Returns (Some pc') \<Rightarrow> Some (pc', tx_idx, k)
                             | _ \<Rightarrow> None)\<rparr>)))"

definition sys_step :: "event \<times> bool \<Rightarrow> session \<Rightarrow> session" where
  "sys_step ea x =
     (if crashed x \<noteq> None then x
      else if xmit x \<noteq> None \<and> waits (fst ea) x then x
      else case fst ea of
          Interrupt \<Rightarrow> settle (mcp2515_softirq_handler (priv x)) (snd ea) x
        | Timer_expiry \<Rightarrow> settle (read_flags_timer_cb (priv x)) (snd ea) x
        | Host_xmit dropped k \<Rightarrow> settle (mcp2515_start_xmit dropped k (priv x)) (snd ea) x
        | Spi_complete rx alloc \<Rightarrow>
            (case outstanding x of
               [] \<Rightarrow> x
             | cb # rest \<Rightarrow>
                 settle (complete cb alloc (received rx (priv x))) (snd ea)
                   (x\<lparr>outstanding := rest\<rparr>))
        | Xmit_enter dropped k \<Rightarrow>
            (if dropped then x
             else (let (tx_idx, s) = xmit_enter (priv x)
                   in x\<lparr>priv := s, xmit := Some (Xmit_test, tx_idx, k)\<rparr>))
        | Xmit_advance \<Rightarrow> advance (snd ea) x
        | Dev_open env \<Rightarrow> settle (mcp2515_open env (priv x)) (snd ea) x
        | Dev_close env \<Rightarrow> settle (mcp2515_close env (priv x)) (snd ea) x
        | Dev_set_mode mode env \<Rightarrow> settle (mcp2515_set_mode env mode (priv x)) (snd ea) x)"

fun run_events :: "(event \<times> bool) list \<Rightarrow> session \<Rightarrow> session" where
  "run_events [] x = x"
| "run_events (e # es) x = run_events es (sys_step e x)"




subsection \<open>What the session's invariants speak about\<close>



text \<open>
  The event \<open>ea\<close> completes a message whose callback is \<open>cb\<close>: the session has not
  faulted, the event is a completion, and \<open>cb\<close> is the callback of the oldest
  outstanding message.
\<close>

definition completes :: "completion \<Rightarrow> event \<times> bool \<Rightarrow> session \<Rightarrow> bool" where
  "completes cb ea x \<longleftrightarrow>
     crashed x = None \<and>
     (case fst ea of Spi_complete rx alloc \<Rightarrow> True | _ \<Rightarrow> False) \<and>
     (case outstanding x of [] \<Rightarrow> False | c # rest \<Rightarrow> c = Some cb)"


text \<open>The calls made by the step \<open>ea\<close> from the session \<open>x\<close>.\<close>

definition step_effects :: "event \<times> bool \<Rightarrow> session \<Rightarrow> effect list" where
  "step_effects ea x = drop (length (trace x)) (trace (sys_step ea x))"

text \<open>
  The fields that the functions which only start a message leave alone.
\<close>

definition leaves_flags :: "mcp2515_priv \<Rightarrow> mcp2515_priv \<Rightarrow> bool" where
  "leaves_flags s s' \<longleftrightarrow>
     busy s' = busy s \<and> interrupt s' = interrupt s \<and>
     netif_queue_stopped s' = netif_queue_stopped s \<and>
     tx_busy_map s' = tx_busy_map s \<and> tx_pending_map s' = tx_pending_map s \<and>
     skb s' = skb s \<and> canintf s' = canintf s \<and> eflg s' = eflg s \<and>
     extra s' = extra s \<and> skip s' = skip s \<and> stats s' = stats s \<and>
     rx_buf s' = rx_buf s"

text \<open>
  Two ways a run can end.  It \<open>starts\<close> a message: it returns, has submitted exactly
  the message with the callback \<open>cb\<close>, has called none of \<open>netif_stop_queue\<close>,
  \<open>netif_wake_queue\<close> and \<open>netif_start_queue\<close>, and has left the flags alone.  It \<open>stops\<close>: it ends at a fault
  before it has called anything.
\<close>

definition starts :: "completion \<Rightarrow> mcp2515_priv \<Rightarrow> unit run \<Rightarrow> bool" where
  "starts cb s r \<longleftrightarrow>
     result r = Returns () \<and> submitted (effects r) = [Some cb] \<and>
     Netif_stop_queue \<notin> set (effects r) \<and> Netif_wake_queue \<notin> set (effects r) \<and>
     Netif_start_queue \<notin> set (effects r) \<and> leaves_flags s (after r)"

definition stops :: "mcp2515_priv \<Rightarrow> unit run \<Rightarrow> bool" where
  "stops s r \<longleftrightarrow> result r \<noteq> Returns () \<and> effects r = [] \<and> leaves_flags s (after r)"

text \<open>
  A run is \<open>paced\<close> when it submits at most one message and, if it submits one, leaves
  busy set.
\<close>

definition paced :: "'r run \<Rightarrow> bool" where
  "paced r \<longleftrightarrow>
     length (submitted (effects r)) \<le> 1 \<and> (submitted (effects r) = [] \<or> busy (after r))"

text \<open>
  A run is \<open>steady\<close> when it leaves the deferred-interrupt flag and busy as they were.
\<close>

definition steady :: "mcp2515_priv \<Rightarrow> 'r run \<Rightarrow> bool" where
  "steady s r \<longleftrightarrow> interrupt (after r) = interrupt s \<and> busy (after r) = busy s"

text \<open>
  A run is \<open>calm\<close> when it leaves the busy map and the stopped flag as they were and
  calls none of \<open>netif_stop_queue\<close>, \<open>netif_wake_queue\<close> and \<open>netif_start_queue\<close>.
\<close>

definition calm :: "mcp2515_priv \<Rightarrow> 'r run \<Rightarrow> bool" where
  "calm s r \<longleftrightarrow>
     tx_busy_map (after r) = tx_busy_map s \<and>
     netif_queue_stopped (after r) = netif_queue_stopped s \<and>
     Netif_stop_queue \<notin> set (effects r) \<and> Netif_wake_queue \<notin> set (effects r) \<and>
     Netif_start_queue \<notin> set (effects r)"


subsection \<open>Encoding a frame and decoding the same bytes\<close>

text \<open>
  A frame that the stack may hand over for transmission: at most eight bytes of data,
  the error flag clear, and an identifier of 11 bits unless the frame is in the extended
  format (then the 29 bits below the flags are the identifier).
\<close>

definition valid_can_frame :: "can_frame \<Rightarrow> bool" where
  "valid_can_frame f \<longleftrightarrow>
     unat (can_dlc f) \<le> 8 \<and> length (data f) = 8 \<and> can_id f AND CAN_ERR_FLAG = 0 \<and>
     (can_id f AND CAN_EFF_FLAG = 0 \<longrightarrow> can_id f AND 0x1FFFF800 = 0)"

text \<open>
  The bytes that \<open>mcp2515_load_txb\<close> puts into the transfer buffer for the frame of
  \<open>k\<close>, read back as if they were the response to a read of a receive buffer: byte 0 is
  the instruction, bytes 1 to 4 the identifier registers, byte 5 the DLC register, the
  data from byte 6 on, in both layouts.
\<close>

definition decode_loaded :: "sk_buff \<Rightarrow> can_frame \<Rightarrow> mcp2515_priv \<Rightarrow> unit run" where
  "decode_loaded k frame0 s =
     (let t = after (mcp2515_load_txb (Some k) 0 s)
      in mcp2515_read_rxb_complete (Some frame0) (t\<lparr>rx_buf := tx_buf t\<rparr>))"

subsection \<open>Example data\<close>

text \<open>Frames and register contents used where a statement is evaluated on a concrete input.\<close>

definition frame_std :: can_frame where
  "frame_std = \<lparr>can_id = 0x123, can_dlc = 2, data = [0x11, 0x22, 0, 0, 0, 0, 0, 0]\<rparr>"

definition frame_std_rtr :: can_frame where
  "frame_std_rtr = \<lparr>can_id = 0x40000123, can_dlc = 0, data = [0, 0, 0, 0, 0, 0, 0, 0]\<rparr>"

definition frame_ext :: can_frame where
  "frame_ext = \<lparr>can_id = 0x92345678, can_dlc = 8, data = [1, 2, 3, 4, 5, 6, 7, 8]\<rparr>"

definition frame_zero :: can_frame where
  "frame_zero = \<lparr>can_id = 0, can_dlc = 0, data = [0, 0, 0, 0, 0, 0, 0, 0]\<rparr>"

text \<open>The response to a status read: two bytes of clocking, then CANINTF and EFLG.\<close>

definition flags_response :: "u8 \<Rightarrow> u8 \<Rightarrow> u8 list" where
  "flags_response intf ef = [0, 0, intf, ef]"

text \<open>The receive buffer after a status read: CANINTF and EFLG in bytes 2 and 3.\<close>

definition rx_flags :: "u8 \<Rightarrow> u8 \<Rightarrow> u8 list" where
  "rx_flags intf ef = [0, 0, intf, ef, 0, 0, 0, 0, 0, 0, 0, 0, 0, 0]"

text \<open>A busy session whose status read has just brought the flags \<open>intf\<close>.\<close>

definition busy_with :: "u8 \<Rightarrow> mcp2515_priv" where
  "busy_with intf = priv_zero\<lparr>busy := True, rx_buf := rx_flags intf 0\<rparr>"

text \<open>
  A busy session with all three slots taken, slots 1 and 2 still pending, and a status
  read that has brought no flags.
\<close>

definition full_ring :: mcp2515_priv where
  "full_ring =
     priv_zero\<lparr>busy := True, rx_buf := rx_flags 0 0, netif_queue_stopped := True,
               tx_busy_map := 7, tx_pending_map := 6,
               skb := [Some (Skb frame_ext), Some (Skb frame_std), Some (Skb frame_ext)]\<rparr>"

definition frame_ext_rtr :: can_frame where
  "frame_ext_rtr = \<lparr>can_id = 0xD2345678, can_dlc = 2, data = [0x11, 0x22, 0, 0, 0, 0, 0, 0]\<rparr>"

text \<open>
  Event lists.  In the first, the session is busy with a status read when a frame is
  queued into slot 0, and the status read brings the transmit flag of that slot although
  nothing was sent from it.  In the second, interrupts arrive at two different moments
  of one busy period.  In the third, three frames fill the ring and the first of them is
  sent.
\<close>

definition stale_tx_flag_events :: "(event \<times> bool) list" where
  "stale_tx_flag_events =
     [(Interrupt, True), (Host_xmit False (Skb frame_std), True),
      (Spi_complete (flags_response CANINTF_TX0IF 0) None, True),
      (Spi_complete [] None, True),
      (Spi_complete (flags_response 0 0) None, True)]"

text \<open>
  The private data with which the callback of the fifth event of \<open>stale_tx_flag_events\<close>
  starts.
\<close>

definition pending_null_entry :: mcp2515_priv where
  "pending_null_entry =
     received (flags_response 0 0) (priv (run_events (take 4 stale_tx_flag_events) session_init))"

definition two_deferred_events :: "(event \<times> bool) list" where
  "two_deferred_events =
     [(Interrupt, True), (Interrupt, True),
      (Spi_complete (flags_response 0 0) None, True),
      (Interrupt, True),
      (Spi_complete (flags_response 0 0) None, True),
      (Spi_complete (flags_response 0 0) None, True)]"


text \<open>
  Three interrupts arrive while the read of receive buffer 0 is in flight; the status
  read that follows it brings no flag, and neither does the one after.
\<close>

definition rxb_deferred_events :: "(event \<times> bool) list" where
  "rxb_deferred_events =
     [(Interrupt, True), (Spi_complete (flags_response CANINTF_RX0IF 0) None, True),
      (Interrupt, True), (Interrupt, True), (Interrupt, True),
      (Spi_complete (replicate 14 0) (Some frame_zero), True),
      (Spi_complete (flags_response 0 0) None, True),
      (Spi_complete (flags_response 0 0) None, True)]"



section \<open>Properties\<close>

subsection \<open>Auxiliary facts\<close>

lemma and_then_Returns [simp]:
  "and_then (Run s es (Returns v)) f = Run (after (f s)) (es @ effects (f s)) (result (f s))"
  by (simp add: and_then_def Let_def)

lemma and_then_Faults [simp]:
  "and_then (Run s es (Faults e)) f = Run s es (Faults e)"
  by (simp add: and_then_def)

lemma unat_low_nibble: "unat (x AND 0xf) = unat x mod 16" for x :: u8
proof -
  have "x AND 0xf = take_bit 4 x"
    by (simp add: take_bit_eq_mask mask_eq_exp_minus_1)
  then show ?thesis
    by (simp add: take_bit_eq_mod unat_mod)
qed

lemma get_can_dlc_unat: "unat (get_can_dlc i) = min (unat i) 8"
  by (simp add: get_can_dlc_def min_def word_le_nat_alt)

lemma list4_update:
  "4 \<le> length buf \<Longrightarrow> take 4 (buf[0 := a, 1 := b, 2 := c, 3 := d]) = [a, b, c, d]"
  apply (cases buf; simp)
  subgoal for x xs apply (cases xs; simp)
    subgoal for y ys apply (cases ys; simp)
      subgoal for z zs by (cases zs; simp)
      done
    done
  done

lemma memcpy_append:
  "off + length bs \<le> length buf \<Longrightarrow>
   memcpy buf off bs = take off buf @ bs @ drop (off + length bs) buf"
proof (induction bs arbitrary: buf off)
  case Nil
  then show ?case by simp
next
  case (Cons b bs)
  then have "off < length buf" by simp
  have "memcpy (buf[off := b]) (Suc off) bs =
        take (Suc off) (buf[off := b]) @ bs @ drop (Suc off + length bs) (buf[off := b])"
    using Cons.prems by (intro Cons.IH) simp
  also have "take (Suc off) (buf[off := b]) = take off buf @ [b]"
    using \<open>off < length buf\<close> by (simp add: take_Suc_conv_app_nth)
  also have "drop (Suc off + length bs) (buf[off := b]) = drop (off + length (b # bs)) buf"
    by simp
  finally show ?case by simp
qed

lemma length_memcpy [simp]: "length (memcpy buf off bs) = length buf"
  by (induction bs arbitrary: buf off) simp_all

lemma read_flags_run:
  "4 \<le> length (tx_buf s) \<Longrightarrow>
   mcp2515_read_flags s =
     Run (s\<lparr>tx_buf := (tx_buf s)[0 := 0x03, 1 := 0x2c, 2 := 0, 3 := 0], transfer_len := 4,
            message_complete := Some Read_flags_complete\<rparr>)
       [Cancel_delayed_work, Spi_async (Some Read_flags_complete) [0x03, 0x2c, 0, 0]]
       (Returns ())"
  using list4_update [of "tx_buf s" 3 44 0 0]
  by (simp add: mcp2515_read_flags_def spi_async_def Let_def)

lemma copy_payload:
  assumes "length buf = 14" "length d0 = 8" "n \<le> 8"
  shows "memcpy d0 0 (take n (drop 6 buf)) = take n (drop 6 buf) @ drop n d0"
proof -
  have l: "length (take n (drop 6 buf)) = n" using assms by simp
  have "memcpy d0 0 (take n (drop 6 buf)) =
        take 0 d0 @ take n (drop 6 buf) @ drop (0 + length (take n (drop 6 buf))) d0"
    by (rule memcpy_append) (use assms l in simp)
  then show ?thesis by (simp only: l) simp
qed

lemma u8_le_7_cases:
  fixes m :: u8
  assumes "m \<le> 7"
  shows "m = 0 \<or> m = 1 \<or> m = 2 \<or> m = 3 \<or> m = 4 \<or> m = 5 \<or> m = 6 \<or> m = 7"
proof -
  from assms have "unat m \<le> 7" by (simp add: word_le_nat_alt)
  then consider "unat m = 0" | "unat m = 1" | "unat m = 2" | "unat m = 3"
    | "unat m = 4" | "unat m = 5" | "unat m = 6" | "unat m = 7"
    by linarith
  then show ?thesis
  proof cases
    case 1 then have "word_of_nat (unat m) = (0 :: u8)" by simp
    then show ?thesis by simp
  next
    case 2 then have "word_of_nat (unat m) = (1 :: u8)" by simp
    then show ?thesis by simp
  next
    case 3 then have "word_of_nat (unat m) = (2 :: u8)" by simp
    then show ?thesis by simp
  next
    case 4 then have "word_of_nat (unat m) = (3 :: u8)" by simp
    then show ?thesis by simp
  next
    case 5 then have "word_of_nat (unat m) = (4 :: u8)" by simp
    then show ?thesis by simp
  next
    case 6 then have "word_of_nat (unat m) = (5 :: u8)" by simp
    then show ?thesis by simp
  next
    case 7 then have "word_of_nat (unat m) = (6 :: u8)" by simp
    then show ?thesis by simp
  next
    case 8 then have "word_of_nat (unat m) = (7 :: u8)" by simp
    then show ?thesis by simp
  qed
qed

lemma bit_test: "(BIT i AND m = 0) = (\<not> bit m i)"
  unfolding BIT_def using and_exp_eq_0_iff_not_bit [of m i]
  by (simp add: and.commute)

text \<open>The two loops, run from index 0.\<close>

lemma find_free_tx_unfold:
  "find_free_tx 0 m =
    (if \<not> bit m 0 then (0, m OR BIT 0) else if \<not> bit m 1 then (1, m OR BIT 1)
     else if \<not> bit m 2 then (2, m OR BIT 2) else (3, m))"
  by (simp add: find_free_tx.simps [of 0] find_free_tx.simps [of "Suc 0"]
      find_free_tx.simps [of "Suc (Suc 0)"] find_free_tx.simps [of "Suc (Suc (Suc 0))"]
      bit_test numeral_2_eq_2 del: bit_0)

lemma find_pending_tx_unfold:
  "find_pending_tx 0 m =
    (if bit m 0 then (0, m AND NOT (BIT 0)) else if bit m 1 then (1, m AND NOT (BIT 1))
     else if bit m 2 then (2, m AND NOT (BIT 2)) else (3, m))"
  by (simp add: find_pending_tx.simps [of 0] find_pending_tx.simps [of "Suc 0"]
      find_pending_tx.simps [of "Suc (Suc 0)"] find_pending_tx.simps [of "Suc (Suc (Suc 0))"]
      bit_test numeral_2_eq_2 del: bit_0)

lemma low3_set:
  fixes m :: u8
  assumes "bit m 0" "bit m 1" "bit m 2"
  shows "7 \<le> m"
proof -
  have seven: "(7 :: u8) = 2 ^ 0 OR 2 ^ 1 OR 2 ^ 2" by simp
  have "m AND 7 = 7"
    apply (rule bit_eqI)
    apply (subst seven)+
    using assms
    apply (auto simp only: bit_and_iff bit_or_iff bit_exp_iff)
    done
  then show ?thesis
    by (metis word_and_le2)
qed

lemma memcpy_nth_below: "i < off \<Longrightarrow> memcpy buf off bs ! i = buf ! i"
  by (induction bs arbitrary: buf off) simp_all

lemma take_Suc_hd: "xs \<noteq> [] \<Longrightarrow> take (Suc n) xs = xs ! 0 # take n (tl xs)"
  by (cases xs) simp_all

lemma memset_14: "length buf = 14 \<Longrightarrow> memset buf c 14 = replicate 14 c"
  using memcpy_append [of 0 "replicate 14 c" buf] by (simp add: memset_def)

lemma read_rxb_run:
  assumes "length (tx_buf s) = 14"
  shows "mcp2515_read_rxb instr cb s =
     Run (s\<lparr>tx_buf := instr # replicate 13 0, transfer_len := 14,
            message_complete := Some cb\<rparr>)
       [Spi_async (Some cb) (instr # replicate 13 0)] (Returns ())"
proof -
  have "(replicate 14 (0 :: u8))[0 := instr] = instr # replicate 13 0"
    by (simp add: eval_nat_numeral)
  then show ?thesis
    using assms
    by (simp add: mcp2515_read_rxb_def mcp2515_spi_async_def spi_async_def Let_def memset_14)
qed

lemma clear_canintf_run:
  assumes "4 \<le> length (tx_buf s)"
  shows "mcp2515_clear_canintf s =
     Run (s\<lparr>tx_buf := (tx_buf s)[0 := 0x05, 1 := 0x2c, 2 := canintf s AND NOT 3, 3 := 0],
            transfer_len := 4, message_complete := Some Clear_canintf_complete\<rparr>)
       [Spi_async (Some Clear_canintf_complete) [0x05, 0x2c, canintf s AND NOT 3, 0]]
       (Returns ())"
  using list4_update [OF assms, of 5 44 "canintf s AND NOT 3" 0]
  by (simp add: mcp2515_clear_canintf_def mcp2515_spi_async_def spi_async_def Let_def)

lemma clear_eflg_run:
  assumes "4 \<le> length (tx_buf s)"
  shows "mcp2515_clear_eflg s =
     Run (s\<lparr>tx_buf := (tx_buf s)[0 := 0x05, 1 := 0x2d, 2 := eflg s, 3 := 0],
            transfer_len := 4, message_complete := Some Clear_eflg_complete\<rparr>)
       [Spi_async (Some Clear_eflg_complete) [0x05, 0x2d, eflg s, 0]]
       (Returns ())"
  using list4_update [OF assms, of 5 45 "eflg s" 0]
  by (simp add: mcp2515_clear_eflg_def mcp2515_spi_async_def spi_async_def Let_def)

lemma set_txbuf_Returns:
  assumes "unat (can_dlc (skb_data k)) \<le> 8"
  shows "\<exists>buf. mcp2515_set_txbuf b off k = (buf, Returns (5 + unat (can_dlc (skb_data k))))
           \<and> length buf = length b \<and> (\<forall>i < off. buf ! i = b ! i)"
  using assms
  by (simp add: mcp2515_set_txbuf_def Let_def memcpy_nth_below)

lemma load_txb_run:
  assumes "length (tx_buf s) = 14" and "unat (can_dlc (skb_data k)) \<le> 8"
  shows "\<exists>buf bytes. mcp2515_load_txb (Some k) i s =
     Run (s\<lparr>tx_buf := buf, transfer_len := 6 + unat (can_dlc (skb_data k)),
            message_complete := Some Load_txb_complete, loaded_txb := of_nat i\<rparr>)
       [Can_put_echo_skb k (of_nat i),
        Spi_async (Some Load_txb_complete) (MCP2515_INSTRUCTION_LOAD_TXB (of_nat i) # bytes)]
       (Returns ())"
proof -
  let ?b = "(tx_buf s)[0 := MCP2515_INSTRUCTION_LOAD_TXB (of_nat i)]"
  from set_txbuf_Returns [OF assms(2), of ?b 1]
  obtain buf where r: "mcp2515_set_txbuf ?b 1 k = (buf, Returns (5 + unat (can_dlc (skb_data k))))"
    and l: "length buf = length ?b" and z: "buf ! 0 = ?b ! 0"
    by auto
  from l assms(1) have ne: "buf \<noteq> []" by auto
  from z assms(1) have h: "buf ! 0 = MCP2515_INSTRUCTION_LOAD_TXB (of_nat i)" by simp
  show ?thesis
    using r take_Suc_hd [OF ne, of "5 + unat (can_dlc (skb_data k))"] h
    by (simp add: mcp2515_load_txb_def mcp2515_spi_async_def spi_async_def Let_def)
      (rule exI, rule refl)
qed

lemma and_bit0: "(x AND 1 = 0) = (\<not> bit x 0)" for x :: u8
  using and_exp_eq_0_iff_not_bit [of x 0] by simp

lemma and_bit1: "(x AND 2 = 0) = (\<not> bit x 1)" for x :: u8
  using and_exp_eq_0_iff_not_bit [of x 1] by simp

lemma no_low3_zero:
  fixes m :: u8
  assumes "m \<le> 7" "\<not> bit m 0" "\<not> bit m 1" "\<not> bit m 2"
  shows "m = 0"
proof -
  have "\<not> (\<not> bit (1 :: u8) 0 \<and> \<not> bit (1 :: u8) 1 \<and> \<not> bit (1 :: u8) 2)"
       "\<not> (\<not> bit (2 :: u8) 0 \<and> \<not> bit (2 :: u8) 1 \<and> \<not> bit (2 :: u8) 2)"
       "\<not> (\<not> bit (3 :: u8) 0 \<and> \<not> bit (3 :: u8) 1 \<and> \<not> bit (3 :: u8) 2)"
       "\<not> (\<not> bit (4 :: u8) 0 \<and> \<not> bit (4 :: u8) 1 \<and> \<not> bit (4 :: u8) 2)"
       "\<not> (\<not> bit (5 :: u8) 0 \<and> \<not> bit (5 :: u8) 1 \<and> \<not> bit (5 :: u8) 2)"
       "\<not> (\<not> bit (6 :: u8) 0 \<and> \<not> bit (6 :: u8) 1 \<and> \<not> bit (6 :: u8) 2)"
       "\<not> (\<not> bit (7 :: u8) 0 \<and> \<not> bit (7 :: u8) 1 \<and> \<not> bit (7 :: u8) 2)"
    by code_simp+
  with u8_le_7_cases [OF assms(1)] assms(2-) show ?thesis by blast
qed

lemma load_pending_lowest:
  assumes "i < 3" "bit (tx_pending_map s) i" "\<forall>j<i. \<not> bit (tx_pending_map s) j"
  shows "load_pending_tx s =
           mcp2515_load_txb (skb s ! i) i (s\<lparr>tx_pending_map := tx_pending_map s AND NOT (BIT i)\<rparr>)"
proof -
  from assms(1) consider "i = 0" | "i = 1" | "i = 2" by linarith
  then show ?thesis
  proof cases
    case 1
    with assms show ?thesis
      by (simp add: load_pending_tx_def find_pending_tx_unfold del: bit_0)
  next
    case 2
    with assms have "\<not> bit (tx_pending_map s) 0" "bit (tx_pending_map s) 1" by auto
    with 2 show ?thesis
      by (simp add: load_pending_tx_def find_pending_tx_unfold del: bit_0)
  next
    case 3
    with assms have "\<not> bit (tx_pending_map s) 0" "\<not> bit (tx_pending_map s) 1"
      "bit (tx_pending_map s) 2" by auto
    with 3 show ?thesis
      by (simp add: load_pending_tx_def find_pending_tx_unfold del: bit_0)
  qed
qed

lemma pending_nonzero: "bit m i \<Longrightarrow> m \<noteq> 0" for m :: u8
  by auto

text \<open>Bit-level facts about the two identifier layouts.\<close>

lemma less_8_cases:
  assumes "ix < (8 :: nat)"
  shows "ix = 0 \<or> ix = 1 \<or> ix = 2 \<or> ix = 3 \<or> ix = 4 \<or> ix = 5 \<or> ix = 6 \<or> ix = 7"
  using assms by linarith

lemma less_32_cases:
  assumes "ix < (32 :: nat)"
  shows "ix = 0 \<or> ix = 1 \<or> ix = 2 \<or> ix = 3 \<or> ix = 4 \<or> ix = 5 \<or> ix = 6 \<or> ix = 7 \<or> ix = 8 \<or> ix = 9 \<or> ix = 10
    \<or> ix = 11 \<or> ix = 12 \<or> ix = 13 \<or> ix = 14 \<or> ix = 15 \<or> ix = 16 \<or> ix = 17 \<or> ix = 18 \<or> ix = 19 \<or> ix = 20
    \<or> ix = 21 \<or> ix = 22 \<or> ix = 23 \<or> ix = 24 \<or> ix = 25 \<or> ix = 26 \<or> ix = 27 \<or> ix = 28 \<or> ix = 29 \<or> ix = 30
    \<or> ix = 31"
proof -
  consider "ix < 8" | "8 \<le> ix" "ix < 16" | "16 \<le> ix" "ix < 24" | "24 \<le> ix" "ix < 32"
    using assms by linarith
  then show ?thesis
  proof cases
    case 1
    from less_8_cases [OF this] show ?thesis by blast
  next
    case 2
    then have "ix - 8 < 8" by simp
    from less_8_cases [OF this] 2
    have "ix = 8 \<or> ix = 9 \<or> ix = 10 \<or> ix = 11 \<or> ix = 12 \<or> ix = 13 \<or> ix = 14 \<or> ix = 15"
      by (elim disjE) linarith+
    then show ?thesis by blast
  next
    case 3
    then have "ix - 16 < 8" by simp
    from less_8_cases [OF this] 3
    have "ix = 16 \<or> ix = 17 \<or> ix = 18 \<or> ix = 19 \<or> ix = 20 \<or> ix = 21 \<or> ix = 22 \<or> ix = 23"
      by (elim disjE) linarith+
    then show ?thesis by blast
  next
    case 4
    then have "ix - 24 < 8" by simp
    from less_8_cases [OF this] 4
    have "ix = 24 \<or> ix = 25 \<or> ix = 26 \<or> ix = 27 \<or> ix = 28 \<or> ix = 29 \<or> ix = 30 \<or> ix = 31"
      by (elim disjE) linarith+
    then show ?thesis by blast
  qed
qed

text \<open>The constants of the two codecs, as masks and powers of two.\<close>

lemma codec_consts8:
  "(0xe0 :: u8) = push_bit 5 (mask 3)" "(3 :: u8) = mask 2" "(8 :: u8) = 2 ^ 3"
  "(0x10 :: u8) = 2 ^ 4" "(0x40 :: u8) = 2 ^ 6"
  by (simp_all add: mask_eq_exp_minus_1)

lemma codec_consts32:
  "(0xe0 :: u32) = push_bit 5 (mask 3)" "(3 :: u32) = mask 2" "(8 :: u32) = 2 ^ 3"
  "(0x80000000 :: u32) = 2 ^ 31" "(0x40000000 :: u32) = 2 ^ 30" "(0x20000000 :: u32) = 2 ^ 29"
  "(0x1FFFF800 :: u32) = push_bit 11 (mask 18)"
  by (simp_all add: mask_eq_exp_minus_1)

lemma ext_fields:
  fixes cid :: u32
  shows "push_bit 21 (ucast (ucast (drop_bit 21 cid) :: u8)) OR
         push_bit 13 (ucast ((ucast ((drop_bit 13 cid AND 0xe0) OR 8 OR (drop_bit 16 cid AND 3)) :: u8) AND 0xe0)) OR
         push_bit 16 (ucast ((ucast ((drop_bit 13 cid AND 0xe0) OR 8 OR (drop_bit 16 cid AND 3)) :: u8) AND 3)) OR
         push_bit 8 (ucast (ucast (drop_bit 8 cid) :: u8)) OR
         ucast (ucast cid :: u8) = take_bit 29 cid"
  unfolding codec_consts8 codec_consts32
  apply (rule bit_eqI)
  subgoal for n
    apply (simp only: possible_bit_word len_of_numeral_defs)
    apply simp
    apply (drule less_32_cases)
    apply (elim disjE)
    apply (simp_all add: bit_simps)
    done
  done

lemma std_fields:
  fixes cid :: u32
  shows "push_bit 3 (ucast (ucast (drop_bit 3 cid) :: u8)) OR
         ucast (drop_bit 5 (ucast (push_bit 5 cid) :: u8)) = take_bit 11 cid"
  apply (rule bit_eqI)
  subgoal for n
    apply (simp only: possible_bit_word len_of_numeral_defs)
    apply simp
    apply (drule less_32_cases)
    apply (elim disjE)
    apply (simp_all add: bit_simps)
    done
  done

lemma flag_tests:
  fixes cid :: u32
  shows "(cid AND 0x80000000 = 0) = (\<not> bit cid 31)"
    and "(cid AND 0x40000000 = 0) = (\<not> bit cid 30)"
    and "(cid AND 0x20000000 = 0) = (\<not> bit cid 29)"
  using and_exp_eq_0_iff_not_bit [of cid 31] and_exp_eq_0_iff_not_bit [of cid 30]
    and_exp_eq_0_iff_not_bit [of cid 29]
  by simp_all

lemma sff_bits:
  fixes cid :: u32
  assumes "cid AND 0x1FFFF800 = 0" "11 \<le> n" "n < 29"
  shows "\<not> bit cid n"
proof
  assume "bit cid n"
  moreover from assms(2,3) have "n - 11 < 18" by arith
  ultimately have "bit (cid AND push_bit 11 (mask 18)) n"
    using assms(2,3) by (simp add: bit_simps)
  with assms(1) show False
    by (simp add: codec_consts32)
qed

lemma id_ext_plain:
  fixes cid :: u32
  assumes "bit cid 31" "\<not> bit cid 30" "\<not> bit cid 29"
  shows "take_bit 29 cid OR 0x80000000 = cid"
  unfolding codec_consts32
  apply (rule bit_eqI)
  subgoal for n
    using assms
    apply (simp only: possible_bit_word len_of_numeral_defs)
    apply simp
    apply (drule less_32_cases)
    apply (elim disjE)
    apply (simp_all add: bit_simps)
    done
  done

lemma id_ext_rtr:
  fixes cid :: u32
  assumes "bit cid 31" "bit cid 30" "\<not> bit cid 29"
  shows "take_bit 29 cid OR 0x80000000 OR 0x40000000 = cid"
  unfolding codec_consts32
  apply (rule bit_eqI)
  subgoal for n
    using assms
    apply (simp only: possible_bit_word len_of_numeral_defs)
    apply simp
    apply (drule less_32_cases)
    apply (elim disjE)
    apply (simp_all add: bit_simps)
    done
  done

lemma id_std:
  fixes cid :: u32
  assumes "\<not> bit cid 31" "\<not> bit cid 29" "cid AND 0x1FFFF800 = 0"
  shows "take_bit 11 cid = cid AND NOT 0x40000000"
  unfolding codec_consts32
  apply (rule bit_eqI)
  subgoal for n
    using assms sff_bits [OF assms(3), of n]
    apply (simp only: possible_bit_word len_of_numeral_defs)
    apply simp
    apply (drule less_32_cases)
    apply (elim disjE)
    apply (simp_all add: bit_simps)
    done
  done

lemma id_std_plain:
  fixes cid :: u32
  assumes "\<not> bit cid 31" "\<not> bit cid 30" "\<not> bit cid 29" "cid AND 0x1FFFF800 = 0"
  shows "take_bit 11 cid = cid"
  apply (rule bit_eqI)
  subgoal for n
    using assms(1-3) sff_bits [OF assms(4), of n]
    apply (simp only: possible_bit_word len_of_numeral_defs)
    apply simp
    apply (drule less_32_cases)
    apply (elim disjE)
    apply (simp_all add: bit_simps)
    done
  done

lemma sidl_ext:
  fixes cid :: u32
  shows "(ucast ((drop_bit 13 cid AND 0xe0) OR 8 OR (drop_bit 16 cid AND 3)) :: u8) AND 8 \<noteq> 0"
proof -
  have "bit (ucast ((drop_bit 13 cid AND 0xe0) OR 2 ^ 3 OR (drop_bit 16 cid AND 3)) :: u8) 3"
    by (simp add: bit_simps)
  then show ?thesis
    using and_exp_eq_0_iff_not_bit
      [of "ucast ((drop_bit 13 cid AND 0xe0) OR 2 ^ 3 OR (drop_bit 16 cid AND 3)) :: u8" 3]
    by simp
qed

lemma sidl_std:
  fixes cid :: u32
  shows "(ucast (push_bit 5 cid) :: u8) AND 8 = 0" and "(ucast (push_bit 5 cid) :: u8) AND 0x10 = 0"
proof -
  have "\<not> bit (ucast (push_bit 5 cid) :: u8) 3" "\<not> bit (ucast (push_bit 5 cid) :: u8) 4"
    by (simp_all add: bit_simps)
  then show "(ucast (push_bit 5 cid) :: u8) AND 8 = 0" "(ucast (push_bit 5 cid) :: u8) AND 0x10 = 0"
    using and_exp_eq_0_iff_not_bit [of "ucast (push_bit 5 cid) :: u8" 3]
      and_exp_eq_0_iff_not_bit [of "ucast (push_bit 5 cid) :: u8" 4]
    by simp_all
qed

lemma u8_le_8_cases:
  fixes m :: u8
  assumes "unat m \<le> 8"
  shows "m = 0 \<or> m = 1 \<or> m = 2 \<or> m = 3 \<or> m = 4 \<or> m = 5 \<or> m = 6 \<or> m = 7 \<or> m = 8"
proof (cases "m \<le> 7")
  case True
  from u8_le_7_cases [OF this] show ?thesis by blast
next
  case False
  then have "7 < unat m" by (simp add: word_le_nat_alt)
  with assms have "unat m = 8" by simp
  then have "word_of_nat (unat m) = (8 :: u8)" by simp
  then show ?thesis by simp
qed

lemma dlc_byte:
  fixes d :: u8
  assumes "unat d \<le> 8"
  shows "get_can_dlc ((d OR 0x40) AND 0xf) = d" "get_can_dlc (d AND 0xf) = d"
    "(d OR 0x40) AND 0x40 \<noteq> 0" "d AND 0x40 = 0"
proof -
  have c: "\<forall>d \<in> {0 :: u8, 1, 2, 3, 4, 5, 6, 7, 8}.
      get_can_dlc ((d OR 0x40) AND 0xf) = d \<and> get_can_dlc (d AND 0xf) = d
      \<and> (d OR 0x40) AND 0x40 \<noteq> 0 \<and> d AND 0x40 = 0"
    by code_simp
  from u8_le_8_cases [OF assms] have "d \<in> {0 :: u8, 1, 2, 3, 4, 5, 6, 7, 8}" by auto
  with c show "get_can_dlc ((d OR 0x40) AND 0xf) = d" "get_can_dlc (d AND 0xf) = d"
    "(d OR 0x40) AND 0x40 \<noteq> 0" "d AND 0x40 = 0"
    by blast+
qed

subsection \<open>The overrun counter\<close>

text \<open>
  C6.  When the clear-error-flags message completes, the overrun counter
  \<open>rx_over_errors\<close> goes up by one if bit 6 or bit 7 of the error-flag snapshot is set
  (by one also when both are), and stays as it is when neither is; in every case the
  status read is submitted next: the READ instruction at CANINTF, four bytes long, with
  \<open>mcp2515_read_flags_complete\<close> as its callback.
\<close>

theorem clear_eflg_complete_counts_overrun_once:
  assumes "4 \<le> length (tx_buf s)"
  shows "rx_over_errors (stats (after (mcp2515_clear_eflg_complete s))) =
           rx_over_errors (stats s) + (if bit (eflg s) 6 \<or> bit (eflg s) 7 then 1 else 0)
         \<and> effects (mcp2515_clear_eflg_complete s) =
             [Cancel_delayed_work, Spi_async (Some Read_flags_complete) [0x03, 0x2c, 0, 0]]
         \<and> result (mcp2515_clear_eflg_complete s) = Returns ()"
proof -
  have "(0xC0 :: u8) = 2 ^ 6 OR 2 ^ 7" by simp
  then have "eflg s AND 0xC0 = (eflg s AND 2 ^ 6) OR (eflg s AND 2 ^ 7)"
    by (simp only: bit.conj_disj_distrib)
  then have ov: "(eflg s AND 0xC0 = 0) = (\<not> bit (eflg s) 6 \<and> \<not> bit (eflg s) 7)"
    by (simp only: or_eq_0_iff and_exp_eq_0_iff_not_bit)
  show ?thesis
    using assms by (simp add: mcp2515_clear_eflg_complete_def read_flags_run ov)
qed

theorem clear_eflg_complete_counts_overrun_once_witness:
  "4 \<le> length (tx_buf (priv_zero\<lparr>eflg := 0xC0\<rparr>))
   \<and> rx_over_errors (stats (after (mcp2515_clear_eflg_complete (priv_zero\<lparr>eflg := 0xC0\<rparr>)))) = 1
   \<and> effects (mcp2515_clear_eflg_complete (priv_zero\<lparr>eflg := 0xC0\<rparr>)) =
       [Cancel_delayed_work, Spi_async (Some Read_flags_complete) [0x03, 0x2c, 0, 0]]
   \<and> result (mcp2515_clear_eflg_complete (priv_zero\<lparr>eflg := 0xC0\<rparr>)) = Returns ()"
proof -
  let ?s = "priv_zero\<lparr>eflg := 0xC0\<rparr>"
  have len: "4 \<le> length (tx_buf ?s)"
    by (simp add: priv_zero_def)
  have v: "rx_over_errors (stats ?s) + (if bit (eflg ?s) 6 \<or> bit (eflg ?s) 7 then 1 else 0) = 1"
    by code_simp
  from clear_eflg_complete_counts_overrun_once [OF len]
  have a: "rx_over_errors (stats (after (mcp2515_clear_eflg_complete ?s))) =
             rx_over_errors (stats ?s) + (if bit (eflg ?s) 6 \<or> bit (eflg ?s) 7 then 1 else 0)"
    and e: "effects (mcp2515_clear_eflg_complete ?s) =
             [Cancel_delayed_work, Spi_async (Some Read_flags_complete) [0x03, 0x2c, 0, 0]]"
    and r: "result (mcp2515_clear_eflg_complete ?s) = Returns ()"
    by blast+
  from a v have "rx_over_errors (stats (after (mcp2515_clear_eflg_complete ?s))) = 1"
    by (rule trans)
  with len e r show ?thesis by blast
qed

subsection \<open>The fallback timer\<close>

text \<open>
  C8.  When \<open>read_flags_timer_cb\<close> runs while the session is busy, the skip counter goes
  up by one (an \<open>unsigned\<close>: modulo \<open>2^32\<close>), nothing else in the private data changes
  and no SPI message is submitted.  When it runs while the session is idle, busy is set,
  the marker \<open>extra\<close> is set, the skip counter is zero and the status read is submitted.
\<close>

theorem timer_cb_busy_skips_idle_reads:
  "(busy s \<longrightarrow>
      after (read_flags_timer_cb s) = s\<lparr>skip := skip s + 1\<rparr>
      \<and> submitted (effects (read_flags_timer_cb s)) = []
      \<and> result (read_flags_timer_cb s) = Returns ())
   \<and> (\<not> busy s \<and> 4 \<le> length (tx_buf s) \<longrightarrow>
      busy (after (read_flags_timer_cb s))
      \<and> extra (after (read_flags_timer_cb s))
      \<and> skip (after (read_flags_timer_cb s)) = 0
      \<and> effects (read_flags_timer_cb s) =
          [Cancel_delayed_work, Spi_async (Some Read_flags_complete) [0x03, 0x2c, 0, 0]]
      \<and> result (read_flags_timer_cb s) = Returns ())"
  by (simp add: read_flags_timer_cb_def read_flags_run Let_def)

theorem timer_cb_busy_skips_idle_reads_witness:
  "busy (priv_zero\<lparr>busy := True\<rparr>)
   \<and> after (read_flags_timer_cb (priv_zero\<lparr>busy := True\<rparr>)) =
       priv_zero\<lparr>busy := True, skip := skip (priv_zero\<lparr>busy := True\<rparr>) + 1\<rparr>
   \<and> submitted (effects (read_flags_timer_cb (priv_zero\<lparr>busy := True\<rparr>))) = []
   \<and> \<not> busy priv_zero \<and> 4 \<le> length (tx_buf priv_zero)
   \<and> busy (after (read_flags_timer_cb priv_zero))
   \<and> extra (after (read_flags_timer_cb priv_zero))
   \<and> skip (after (read_flags_timer_cb priv_zero)) = 0
   \<and> effects (read_flags_timer_cb priv_zero) =
       [Cancel_delayed_work, Spi_async (Some Read_flags_complete) [0x03, 0x2c, 0, 0]]"
proof -
  have b: "busy (priv_zero\<lparr>busy := True\<rparr>)" by simp
  have i: "\<not> busy priv_zero \<and> 4 \<le> length (tx_buf priv_zero)"
    by (simp add: priv_zero_def)
  show ?thesis
    using timer_cb_busy_skips_idle_reads [of "priv_zero\<lparr>busy := True\<rparr>"]
      timer_cb_busy_skips_idle_reads [of priv_zero] b i
    by blast
qed

subsection \<open>Length and payload of a received frame\<close>

text \<open>
  C9.  For every content of the receive buffer, the frame that
  \<open>mcp2515_read_rxb_complete\<close> hands to the stack has as its length the low four bits
  of the DLC byte (byte 5 of the buffer), clamped to 8; its data are the bytes of the
  buffer from byte 6 on, that many of them, written over the fresh frame's data when the
  decoded frame has the remote-request flag clear, and the fresh frame's data untouched
  when it has the flag set.
\<close>

theorem read_rxb_complete_length_and_payload:
  assumes "length (rx_buf s) = 14" and "length (data frame0) = 8"
  shows "\<exists>f. effects (mcp2515_read_rxb_complete (Some frame0) s) = [Netif_rx_ni f]
           \<and> unat (can_dlc f) = min (unat (rx_buf s ! 5) mod 16) 8
           \<and> data f = (if can_id f AND CAN_RTR_FLAG = 0
                       then take (unat (can_dlc f)) (drop 6 (rx_buf s)) @
                            drop (unat (can_dlc f)) (data frame0)
                       else data frame0)"
proof -
  define n where "n = get_can_dlc (rx_buf s ! 5 AND 0xf)"
  have n: "unat n = min (unat (rx_buf s ! 5) mod 16) 8"
    by (simp add: n_def get_can_dlc_unat unat_low_nibble)
  then have n8: "unat n \<le> 8" by simp
  note cp = copy_payload [OF assms n8]
  show ?thesis
    using n cp
    by (simp add: mcp2515_read_rxb_complete_def Let_def n_def [symmetric])
qed

theorem read_rxb_complete_length_and_payload_witness:
  "length (rx_buf (priv_zero\<lparr>rx_buf := [0, 0x24, 0x60, 0, 0, 0x0f, 1, 2, 3, 4, 5, 6, 7, 8]\<rparr>)) = 14
   \<and> length (data frame_zero) = 8
   \<and> (\<exists>f. effects (mcp2515_read_rxb_complete (Some frame_zero)
               (priv_zero\<lparr>rx_buf := [0, 0x24, 0x60, 0, 0, 0x0f, 1, 2, 3, 4, 5, 6, 7, 8]\<rparr>)) =
             [Netif_rx_ni f]
         \<and> unat (can_dlc f) =
             min (unat (rx_buf (priv_zero\<lparr>rx_buf := [0, 0x24, 0x60, 0, 0, 0x0f, 1, 2, 3, 4, 5, 6, 7, 8]\<rparr>) ! 5)
                  mod 16) 8
         \<and> data f = (if can_id f AND CAN_RTR_FLAG = 0
                     then take (unat (can_dlc f))
                            (drop 6 (rx_buf (priv_zero\<lparr>rx_buf := [0, 0x24, 0x60, 0, 0, 0x0f, 1, 2, 3, 4, 5, 6, 7, 8]\<rparr>))) @
                          drop (unat (can_dlc f)) (data frame_zero)
                     else data frame_zero))"
proof -
  let ?s = "priv_zero\<lparr>rx_buf := [0, 0x24, 0x60, 0, 0, 0x0f, 1, 2, 3, 4, 5, 6, 7, 8]\<rparr>"
  have l1: "length (rx_buf ?s) = 14" by simp
  have l2: "length (data frame_zero) = 8" by (simp add: frame_zero_def)
  from read_rxb_complete_length_and_payload [OF l1 l2] l1 l2 show ?thesis by blast
qed

text \<open>
  The same input, evaluated: a DLC byte of \<open>0x0f\<close> gives the length 8, and the eight
  bytes that follow it are the data.
\<close>

lemma read_rxb_complete_clamps_15_to_8:
  "effects (mcp2515_read_rxb_complete (Some frame_zero)
      (priv_zero\<lparr>rx_buf := [0, 0x24, 0x60, 0, 0, 0x0f, 1, 2, 3, 4, 5, 6, 7, 8]\<rparr>)) =
   [Netif_rx_ni \<lparr>can_id = 0x123, can_dlc = 8, data = [1, 2, 3, 4, 5, 6, 7, 8]\<rparr>]"
  by code_simp

subsection \<open>The slot index of the transmit entry point\<close>

text \<open>
  C10 (fails on the code).  After an interrupt has made the session busy and three
  frames have been handed to \<open>mcp2515_start_xmit\<close>, all three slots are busy.  On the
  fourth call the loop over \<open>tx_idx\<close> runs to its end and leaves the index at 3, and the
  store \<open>priv->skb[tx_idx] = skb\<close> is outside the three-element array.
\<close>

theorem start_xmit_on_full_ring_index_3:
  "fst (find_free_tx 0
         (tx_busy_map (priv (run_events
            [(Interrupt, True), (Host_xmit False (Skb frame_std), True),
             (Host_xmit False (Skb frame_ext), True), (Host_xmit False (Skb frame_std), True)]
            session_init)))) = 3
   \<and> crashed (run_events
        [(Interrupt, True), (Host_xmit False (Skb frame_std), True),
         (Host_xmit False (Skb frame_ext), True), (Host_xmit False (Skb frame_std), True),
         (Host_xmit False (Skb frame_ext), True)]
        session_init) = Some (Skb_index_out_of_bounds 3)"
  by code_simp

text \<open>
  The same for every state: with the three busy bits set, the call ends in the store at
  index 3, after the queue has been stopped.
\<close>

lemma start_xmit_full_ring:
  assumes "bit (tx_busy_map s) 0" "bit (tx_busy_map s) 1" "bit (tx_busy_map s) 2"
  shows "mcp2515_start_xmit False k s =
           Run (s\<lparr>netif_queue_stopped := True\<rparr>) [Netif_stop_queue]
             (Faults (Skb_index_out_of_bounds 3))"
  using assms low3_set [OF assms]
  by (simp add: mcp2515_start_xmit_def find_free_tx_unfold del: bit_0)

subsection \<open>The branch after a status read\<close>

text \<open>
  The six branches.  When the status read completes, \<open>mcp2515_read_flags_complete\<close> looks at the
  interrupt flags just read (byte 2 of the receive buffer) and does the first of these
  that applies; apart from the diagnostic message, the calls it makes are exactly the
  ones listed.
  \<^enum> Bit 0 (receive buffer 0) set: it submits the read of receive buffer 0.
  \<^enum> Else bit 1 (receive buffer 1) set: it submits the read of receive buffer 1.
  \<^enum> Else any other flag set: it submits the bit-modify of CANINTF that clears the flags.
  \<^enum> Else some slot pending: with \<open>i\<close> the lowest pending slot (holding a frame of at
    most eight bytes), it clears bit \<open>i\<close> of the pending map and submits the load of
    transmit buffer \<open>i\<close> with that frame.
  \<^enum> Else (no slot pending, the pending map having no bits beyond the three slots) with
    the deferred-interrupt flag set: it clears the flag and submits the status read again,
    staying busy.
  \<^enum> Else: it clears busy and arms the timer.
\<close>

theorem read_flags_complete_priority:
  assumes "length (tx_buf s) = 14"
  shows
   "(bit (rx_buf s ! 2) 0 \<longrightarrow>
       removeAll Netdev_dbg (effects (mcp2515_read_flags_complete s)) =
         [Spi_async (Some Read_rxb0_complete) (0x90 # replicate 13 0)])
    \<and> (\<not> bit (rx_buf s ! 2) 0 \<and> bit (rx_buf s ! 2) 1 \<longrightarrow>
       removeAll Netdev_dbg (effects (mcp2515_read_flags_complete s)) =
         [Spi_async (Some Read_rxb1_complete) (0x94 # replicate 13 0)])
    \<and> (\<not> bit (rx_buf s ! 2) 0 \<and> \<not> bit (rx_buf s ! 2) 1 \<and> rx_buf s ! 2 \<noteq> 0 \<longrightarrow>
       removeAll Netdev_dbg (effects (mcp2515_read_flags_complete s)) =
         [Spi_async (Some Clear_canintf_complete) [0x05, 0x2c, rx_buf s ! 2 AND NOT 3, 0]])
    \<and> (rx_buf s ! 2 = 0 \<and> i < 3 \<and> bit (tx_pending_map s) i
         \<and> list_all (\<lambda>j. \<not> bit (tx_pending_map s) j) [0..<i]
         \<and> skb s ! i = Some k \<and> unat (can_dlc (skb_data k)) \<le> 8 \<longrightarrow>
       (\<exists>bytes. removeAll Netdev_dbg (effects (mcp2515_read_flags_complete s)) =
          [Can_put_echo_skb k (of_nat i),
           Spi_async (Some Load_txb_complete) (MCP2515_INSTRUCTION_LOAD_TXB (of_nat i) # bytes)])
       \<and> tx_pending_map (after (mcp2515_read_flags_complete s)) =
           tx_pending_map s AND NOT (BIT i)
       \<and> loaded_txb (after (mcp2515_read_flags_complete s)) = of_nat i
       \<and> busy (after (mcp2515_read_flags_complete s)) = busy s)
    \<and> (rx_buf s ! 2 = 0 \<and> tx_pending_map s \<le> 7 \<and> \<not> bit (tx_pending_map s) 0
         \<and> \<not> bit (tx_pending_map s) 1 \<and> \<not> bit (tx_pending_map s) 2 \<and> interrupt s \<longrightarrow>
       removeAll Netdev_dbg (effects (mcp2515_read_flags_complete s)) =
         [Cancel_delayed_work, Spi_async (Some Read_flags_complete) [0x03, 0x2c, 0, 0]]
       \<and> \<not> interrupt (after (mcp2515_read_flags_complete s))
       \<and> busy (after (mcp2515_read_flags_complete s)) = busy s)
    \<and> (rx_buf s ! 2 = 0 \<and> tx_pending_map s \<le> 7 \<and> \<not> bit (tx_pending_map s) 0
         \<and> \<not> bit (tx_pending_map s) 1 \<and> \<not> bit (tx_pending_map s) 2 \<and> \<not> interrupt s \<longrightarrow>
       removeAll Netdev_dbg (effects (mcp2515_read_flags_complete s)) = [Mod_timer]
       \<and> \<not> busy (after (mcp2515_read_flags_complete s)))"
proof -
  {
    assume "bit (rx_buf s ! 2) 0"
    then have "removeAll Netdev_dbg (effects (mcp2515_read_flags_complete s)) =
           [Spi_async (Some Read_rxb0_complete) (0x90 # replicate 13 0)]"
      using assms
      by (simp add: mcp2515_read_flags_complete_def Let_def mcp2515_read_rxb0_def read_rxb_run and_bit0
          MCP2515_INSTRUCTION_READ_RXB_def del: bit_0)
  }
  note b1 = this
  {
    assume "\<not> bit (rx_buf s ! 2) 0 \<and> bit (rx_buf s ! 2) 1"
    then have "removeAll Netdev_dbg (effects (mcp2515_read_flags_complete s)) =
           [Spi_async (Some Read_rxb1_complete) (0x94 # replicate 13 0)]"
      using assms
      by (simp add: mcp2515_read_flags_complete_def Let_def mcp2515_read_rxb1_def read_rxb_run and_bit0
          and_bit1 MCP2515_INSTRUCTION_READ_RXB_def del: bit_0)
  }
  note b2 = this
  {
    assume "\<not> bit (rx_buf s ! 2) 0 \<and> \<not> bit (rx_buf s ! 2) 1 \<and> rx_buf s ! 2 \<noteq> 0"
    then have "removeAll Netdev_dbg (effects (mcp2515_read_flags_complete s)) =
           [Spi_async (Some Clear_canintf_complete) [0x05, 0x2c, rx_buf s ! 2 AND NOT 3, 0]]"
      using assms
      by (simp add: mcp2515_read_flags_complete_def Let_def clear_canintf_run and_bit0 and_bit1 del: bit_0)
  }
  note b3 = this
  {
    assume a: "rx_buf s ! 2 = 0 \<and> i < 3 \<and> bit (tx_pending_map s) i
           \<and> list_all (\<lambda>j. \<not> bit (tx_pending_map s) j) [0..<i]
           \<and> skb s ! i = Some k \<and> unat (can_dlc (skb_data k)) \<le> 8"
    let ?s = "if extra s then s\<lparr>canintf := 0, eflg := rx_buf s ! 3, extra := False\<rparr>
              else s\<lparr>canintf := 0, eflg := rx_buf s ! 3\<rparr>"
    from a have low: "\<forall>j<i. \<not> bit (tx_pending_map s) j"
      by (simp add: list_all_iff)
    have lp: "load_pending_tx ?s =
        mcp2515_load_txb (Some k) i (?s\<lparr>tx_pending_map := tx_pending_map s AND NOT (BIT i)\<rparr>)"
      using load_pending_lowest [of i ?s] a low by simp
    have len: "length (tx_buf (?s\<lparr>tx_pending_map := tx_pending_map s AND NOT (BIT i)\<rparr>)) = 14"
      using assms by simp
    have dl: "unat (can_dlc (skb_data k)) \<le> 8" using a by simp
    from load_txb_run [OF len dl, of i]
    obtain buf bytes where lr: "mcp2515_load_txb (Some k) i
          (?s\<lparr>tx_pending_map := tx_pending_map s AND NOT (BIT i)\<rparr>) =
       Run (?s\<lparr>tx_pending_map := tx_pending_map s AND NOT (BIT i), tx_buf := buf,
               transfer_len := 6 + unat (can_dlc (skb_data k)),
               message_complete := Some Load_txb_complete, loaded_txb := of_nat i\<rparr>)
         [Can_put_echo_skb k (of_nat i),
          Spi_async (Some Load_txb_complete) (MCP2515_INSTRUCTION_LOAD_TXB (of_nat i) # bytes)]
         (Returns ())"
      by blast
    have ne: "tx_pending_map s \<noteq> 0" using a by auto
    have r: "mcp2515_read_flags_complete s =
        and_then (Run ?s (if extra s \<and> rx_buf s ! 3 \<noteq> 0 then [Netdev_dbg] else []) (Returns ()))
          load_pending_tx"
      using a ne by (simp add: mcp2515_read_flags_complete_def Let_def)
    have "(\<exists>bytes. removeAll Netdev_dbg (effects (mcp2515_read_flags_complete s)) =
            [Can_put_echo_skb k (of_nat i),
             Spi_async (Some Load_txb_complete) (MCP2515_INSTRUCTION_LOAD_TXB (of_nat i) # bytes)])
         \<and> tx_pending_map (after (mcp2515_read_flags_complete s)) =
             tx_pending_map s AND NOT (BIT i)
         \<and> loaded_txb (after (mcp2515_read_flags_complete s)) = of_nat i
         \<and> busy (after (mcp2515_read_flags_complete s)) = busy s"
      by (simp add: r lp lr)
  }
  note b4 = this
  {
    assume a: "rx_buf s ! 2 = 0 \<and> tx_pending_map s \<le> 7 \<and> \<not> bit (tx_pending_map s) 0
           \<and> \<not> bit (tx_pending_map s) 1 \<and> \<not> bit (tx_pending_map s) 2 \<and> interrupt s"
    then have "tx_pending_map s = 0" using no_low3_zero by blast
    with a have "removeAll Netdev_dbg (effects (mcp2515_read_flags_complete s)) =
           [Cancel_delayed_work, Spi_async (Some Read_flags_complete) [0x03, 0x2c, 0, 0]]
         \<and> \<not> interrupt (after (mcp2515_read_flags_complete s))
         \<and> busy (after (mcp2515_read_flags_complete s)) = busy s"
      using assms by (simp add: mcp2515_read_flags_complete_def Let_def read_flags_run)
  }
  note b5 = this
  {
    assume a: "rx_buf s ! 2 = 0 \<and> tx_pending_map s \<le> 7 \<and> \<not> bit (tx_pending_map s) 0
           \<and> \<not> bit (tx_pending_map s) 1 \<and> \<not> bit (tx_pending_map s) 2 \<and> \<not> interrupt s"
    then have "tx_pending_map s = 0" using no_low3_zero by blast
    with a have "removeAll Netdev_dbg (effects (mcp2515_read_flags_complete s)) = [Mod_timer]
         \<and> \<not> busy (after (mcp2515_read_flags_complete s))"
      using assms by (simp add: mcp2515_read_flags_complete_def Let_def)
  }
  note b6 = this
  from b1 b2 b3 b4 b5 b6 show ?thesis by blast
qed



theorem read_flags_complete_priority_witness:
  "length (tx_buf (busy_with 3)) = 14
   \<and> bit (rx_buf (busy_with 3) ! 2) 0
   \<and> removeAll Netdev_dbg (effects (mcp2515_read_flags_complete (busy_with 3))) =
         [Spi_async (Some Read_rxb0_complete) (0x90 # replicate 13 0)]
   \<and> length (tx_buf (busy_with 2)) = 14
   \<and> \<not> bit (rx_buf (busy_with 2) ! 2) 0 \<and> bit (rx_buf (busy_with 2) ! 2) 1
   \<and> removeAll Netdev_dbg (effects (mcp2515_read_flags_complete (busy_with 2))) =
         [Spi_async (Some Read_rxb1_complete) (0x94 # replicate 13 0)]
   \<and> length (tx_buf (busy_with 0x24)) = 14
   \<and> \<not> bit (rx_buf (busy_with 0x24) ! 2) 0 \<and> \<not> bit (rx_buf (busy_with 0x24) ! 2) 1
   \<and> rx_buf (busy_with 0x24) ! 2 \<noteq> 0
   \<and> removeAll Netdev_dbg (effects (mcp2515_read_flags_complete (busy_with 0x24))) =
         [Spi_async (Some Clear_canintf_complete)
            [0x05, 0x2c, rx_buf (busy_with 0x24) ! 2 AND NOT 3, 0]]
   \<and> length (tx_buf full_ring) = 14
   \<and> rx_buf full_ring ! 2 = 0 \<and> (1 :: nat) < 3 \<and> bit (tx_pending_map full_ring) 1
   \<and> list_all (\<lambda>j. \<not> bit (tx_pending_map full_ring) j) [0..<1]
   \<and> skb full_ring ! 1 = Some (Skb frame_std) \<and> unat (can_dlc (skb_data (Skb frame_std))) \<le> 8
   \<and> (\<exists>bytes. removeAll Netdev_dbg (effects (mcp2515_read_flags_complete full_ring)) =
          [Can_put_echo_skb (Skb frame_std) (of_nat 1),
           Spi_async (Some Load_txb_complete) (MCP2515_INSTRUCTION_LOAD_TXB (of_nat 1) # bytes)])
   \<and> tx_pending_map (after (mcp2515_read_flags_complete full_ring)) =
           tx_pending_map full_ring AND NOT (BIT 1)
   \<and> loaded_txb (after (mcp2515_read_flags_complete full_ring)) = of_nat 1
   \<and> busy (after (mcp2515_read_flags_complete full_ring)) = busy full_ring
   \<and> length (tx_buf ((busy_with 0)\<lparr>interrupt := True\<rparr>)) = 14
   \<and> rx_buf ((busy_with 0)\<lparr>interrupt := True\<rparr>) ! 2 = 0
   \<and> tx_pending_map ((busy_with 0)\<lparr>interrupt := True\<rparr>) \<le> 7
   \<and> \<not> bit (tx_pending_map ((busy_with 0)\<lparr>interrupt := True\<rparr>)) 0
   \<and> \<not> bit (tx_pending_map ((busy_with 0)\<lparr>interrupt := True\<rparr>)) 1
   \<and> \<not> bit (tx_pending_map ((busy_with 0)\<lparr>interrupt := True\<rparr>)) 2
   \<and> interrupt ((busy_with 0)\<lparr>interrupt := True\<rparr>)
   \<and> removeAll Netdev_dbg
         (effects (mcp2515_read_flags_complete ((busy_with 0)\<lparr>interrupt := True\<rparr>))) =
         [Cancel_delayed_work, Spi_async (Some Read_flags_complete) [0x03, 0x2c, 0, 0]]
   \<and> \<not> interrupt (after (mcp2515_read_flags_complete ((busy_with 0)\<lparr>interrupt := True\<rparr>)))
   \<and> busy (after (mcp2515_read_flags_complete ((busy_with 0)\<lparr>interrupt := True\<rparr>))) =
       busy ((busy_with 0)\<lparr>interrupt := True\<rparr>)
   \<and> length (tx_buf (busy_with 0)) = 14
   \<and> rx_buf (busy_with 0) ! 2 = 0 \<and> tx_pending_map (busy_with 0) \<le> 7
   \<and> \<not> bit (tx_pending_map (busy_with 0)) 0 \<and> \<not> bit (tx_pending_map (busy_with 0)) 1
   \<and> \<not> bit (tx_pending_map (busy_with 0)) 2 \<and> \<not> interrupt (busy_with 0)
   \<and> removeAll Netdev_dbg (effects (mcp2515_read_flags_complete (busy_with 0))) = [Mod_timer]
   \<and> \<not> busy (after (mcp2515_read_flags_complete (busy_with 0)))"
proof -
  have l1: "length (tx_buf (busy_with 3)) = 14" by code_simp
  have a1: "bit (rx_buf (busy_with 3) ! 2) 0" by code_simp
  note c1 = read_flags_complete_priority [OF l1, of 0 "Skb frame_std", THEN conjunct1, rule_format, OF a1]
  have l2: "length (tx_buf (busy_with 2)) = 14" by code_simp
  have a2: "\<not> bit (rx_buf (busy_with 2) ! 2) 0 \<and> bit (rx_buf (busy_with 2) ! 2) 1" by code_simp
  note c2 = read_flags_complete_priority [OF l2, of 0 "Skb frame_std", THEN conjunct2,
      THEN conjunct1, rule_format, OF a2]
  have l3: "length (tx_buf (busy_with 0x24)) = 14" by code_simp
  have a3: "\<not> bit (rx_buf (busy_with 0x24) ! 2) 0 \<and> \<not> bit (rx_buf (busy_with 0x24) ! 2) 1
      \<and> rx_buf (busy_with 0x24) ! 2 \<noteq> 0" by code_simp
  note c3 = read_flags_complete_priority [OF l3, of 0 "Skb frame_std", THEN conjunct2,
      THEN conjunct2, THEN conjunct1, rule_format, OF a3]
  have l4: "length (tx_buf full_ring) = 14" by code_simp
  have a4: "rx_buf full_ring ! 2 = 0 \<and> (1 :: nat) < 3 \<and> bit (tx_pending_map full_ring) 1
      \<and> list_all (\<lambda>j. \<not> bit (tx_pending_map full_ring) j) [0..<1]
      \<and> skb full_ring ! 1 = Some (Skb frame_std)
      \<and> unat (can_dlc (skb_data (Skb frame_std))) \<le> 8" by code_simp
  note c4 = read_flags_complete_priority [OF l4, of 1 "Skb frame_std", THEN conjunct2,
      THEN conjunct2, THEN conjunct2, THEN conjunct1, rule_format, OF a4]
  let ?s5 = "(busy_with 0)\<lparr>interrupt := True\<rparr>"
  have l5: "length (tx_buf ?s5) = 14" by code_simp
  have a5: "rx_buf ?s5 ! 2 = 0 \<and> tx_pending_map ?s5 \<le> 7 \<and> \<not> bit (tx_pending_map ?s5) 0
      \<and> \<not> bit (tx_pending_map ?s5) 1 \<and> \<not> bit (tx_pending_map ?s5) 2 \<and> interrupt ?s5"
    by code_simp
  note c5 = read_flags_complete_priority [OF l5, of 0 "Skb frame_std", THEN conjunct2,
      THEN conjunct2, THEN conjunct2, THEN conjunct2, THEN conjunct1, rule_format, OF a5]
  have l6: "length (tx_buf (busy_with 0)) = 14" by code_simp
  have a6: "rx_buf (busy_with 0) ! 2 = 0 \<and> tx_pending_map (busy_with 0) \<le> 7
      \<and> \<not> bit (tx_pending_map (busy_with 0)) 0 \<and> \<not> bit (tx_pending_map (busy_with 0)) 1
      \<and> \<not> bit (tx_pending_map (busy_with 0)) 2 \<and> \<not> interrupt (busy_with 0)"
    by code_simp
  note c6 = read_flags_complete_priority [OF l6, of 0 "Skb frame_std", THEN conjunct2,
      THEN conjunct2, THEN conjunct2, THEN conjunct2, THEN conjunct2, rule_format, OF a6]
  show ?thesis
    using l1 a1 c1 l2 a2 c2 l3 a3 c3 l4 a4 c4 l5 a5 c5 l6 a6 c6 by blast
qed


text \<open>
  C2 (the code breaks it in the fourth branch).  In \<open>pending_null_entry\<close> the status read
  has brought no flag, slot 0 is pending and is the lowest pending slot, and its entry
  in \<open>skb\<close> is \<open>NULL\<close>.  \<open>mcp2515_read_flags_complete\<close> takes the fourth branch and
  dequeues the slot (the pending map is 0 afterwards), but it does not load it:
  \<open>mcp2515_load_txb\<close> dereferences the \<open>NULL\<close> entry, no call is made, and busy stays
  set.
\<close>

theorem read_flags_complete_pending_null_entry:
  "rx_buf pending_null_entry ! 2 = 0 \<and>
   tx_pending_map pending_null_entry = 1 \<and>
   skb pending_null_entry ! 0 = None \<and>
   result (mcp2515_read_flags_complete pending_null_entry) = Faults Null_skb_dereference \<and>
   effects (mcp2515_read_flags_complete pending_null_entry) = [] \<and>
   tx_pending_map (after (mcp2515_read_flags_complete pending_null_entry)) = 0 \<and>
   busy (after (mcp2515_read_flags_complete pending_null_entry))"
  by code_simp

theorem read_flags_complete_pending_null_entry_witness:
  "result (mcp2515_read_flags_complete pending_null_entry) \<noteq> Returns ()
   \<and> tx_pending_map (after (mcp2515_read_flags_complete pending_null_entry))
       \<noteq> tx_pending_map pending_null_entry"
  using read_flags_complete_pending_null_entry by simp


subsection \<open>The transmit entry point on a full ring\<close>

lemma start_xmit_result:
  "result (mcp2515_start_xmit dropped k s) = Returns NETDEV_TX_OK
   \<or> (\<exists>e. result (mcp2515_start_xmit dropped k s) = Faults e)"
  by (auto simp: mcp2515_start_xmit_def and_then_def Let_def
      split: prod.splits result.splits if_splits)

text \<open>
  \<open>mcp2515_start_xmit\<close> has no rejecting return: whatever the state and the frame, it
  does not return \<open>NETDEV_TX_BUSY\<close>.  When no slot is free it sets the flag
  \<open>netif_queue_stopped\<close> and calls \<open>netif_stop_queue\<close>.
\<close>

lemma start_xmit_stops_queue_never_rejects:
  "result (mcp2515_start_xmit dropped k s) \<noteq> Returns NETDEV_TX_BUSY
   \<and> (\<not> dropped \<and> bit (tx_busy_map s) 0 \<and> bit (tx_busy_map s) 1 \<and> bit (tx_busy_map s) 2 \<longrightarrow>
        netif_queue_stopped (after (mcp2515_start_xmit dropped k s))
        \<and> Netif_stop_queue \<in> set (effects (mcp2515_start_xmit dropped k s)))"
proof -
  from start_xmit_result [of dropped k s]
  have "result (mcp2515_start_xmit dropped k s) \<noteq> Returns NETDEV_TX_BUSY"
    by auto
  moreover have "netif_queue_stopped (after (mcp2515_start_xmit dropped k s))
        \<and> Netif_stop_queue \<in> set (effects (mcp2515_start_xmit dropped k s))"
    if "\<not> dropped" "bit (tx_busy_map s) 0" "bit (tx_busy_map s) 1" "bit (tx_busy_map s) 2"
    using that start_xmit_full_ring [of s k] by simp
  ultimately show ?thesis by blast
qed

text \<open>
  C7 (the code breaks it).  After an interrupt and three transmit calls all slots are
  busy.  The fourth call signals backpressure (it calls \<open>netif_stop_queue\<close>), but it
  does not report rejection: the loop has run to its end, no branch handles that, and the
  function goes on to the store at index 3, past which its only return is
  \<open>NETDEV_TX_OK\<close>.
\<close>

theorem start_xmit_full_ring_not_rejected:
  "effects (mcp2515_start_xmit False (Skb frame_ext)
      (priv (run_events
         [(Interrupt, True), (Host_xmit False (Skb frame_std), True),
          (Host_xmit False (Skb frame_ext), True), (Host_xmit False (Skb frame_std), True)]
         session_init))) = [Netif_stop_queue]
   \<and> result (mcp2515_start_xmit False (Skb frame_ext)
      (priv (run_events
         [(Interrupt, True), (Host_xmit False (Skb frame_std), True),
          (Host_xmit False (Skb frame_ext), True), (Host_xmit False (Skb frame_std), True)]
         session_init))) \<noteq> Returns NETDEV_TX_BUSY
   \<and> result (mcp2515_start_xmit False (Skb frame_ext)
      (priv (run_events
         [(Interrupt, True), (Host_xmit False (Skb frame_std), True),
          (Host_xmit False (Skb frame_ext), True), (Host_xmit False (Skb frame_std), True)]
         session_init))) = Faults (Skb_index_out_of_bounds 3)"
  by code_simp


subsection \<open>Encoding a frame and decoding the same bytes\<close>

lemma load_txb_image:
  assumes "length (tx_buf s) = 14" "unat (can_dlc f) \<le> 8" "length (data f) = 8"
  shows "length (tx_buf (after (mcp2515_load_txb (Some (Skb f)) abc s))) = 14"
    and "tx_buf (after (mcp2515_load_txb (Some (Skb f)) abc s)) ! 1 =
           (if can_id f AND CAN_EFF_FLAG \<noteq> 0 then ucast (drop_bit 21 (can_id f))
            else ucast (drop_bit 3 (can_id f)))"
    and "tx_buf (after (mcp2515_load_txb (Some (Skb f)) abc s)) ! 2 =
           (if can_id f AND CAN_EFF_FLAG \<noteq> 0
            then ucast ((drop_bit 13 (can_id f) AND 0xe0) OR 8 OR (drop_bit 16 (can_id f) AND 3))
            else ucast (push_bit 5 (can_id f)))"
    and "tx_buf (after (mcp2515_load_txb (Some (Skb f)) abc s)) ! 3 =
           (if can_id f AND CAN_EFF_FLAG \<noteq> 0 then ucast (drop_bit 8 (can_id f)) else 0)"
    and "tx_buf (after (mcp2515_load_txb (Some (Skb f)) abc s)) ! 4 =
           (if can_id f AND CAN_EFF_FLAG \<noteq> 0 then ucast (can_id f) else 0)"
    and "tx_buf (after (mcp2515_load_txb (Some (Skb f)) abc s)) ! 5 =
           (if can_id f AND CAN_RTR_FLAG \<noteq> 0 then can_dlc f OR 0x40 else can_dlc f)"
    and "take (unat (can_dlc f)) (drop 6 (tx_buf (after (mcp2515_load_txb (Some (Skb f)) abc s)))) =
           take (unat (can_dlc f)) (data f)"
proof -
  define b where "b =
    (let b0 = (tx_buf s)[0 := MCP2515_INSTRUCTION_LOAD_TXB (of_nat abc)];
         b1 = (if can_id f AND CAN_EFF_FLAG \<noteq> 0
               then b0[1 := ucast (drop_bit 21 (can_id f)),
                       1 + 1 := ucast ((drop_bit 13 (can_id f) AND 0xe0) OR 8 OR
                                         (drop_bit 16 (can_id f) AND 3)),
                       1 + 2 := ucast (drop_bit 8 (can_id f)),
                       1 + 3 := ucast (can_id f)]
               else b0[1 := ucast (drop_bit 3 (can_id f)),
                       1 + 1 := ucast (push_bit 5 (can_id f)),
                       1 + 2 := 0,
                       1 + 3 := 0]);
         b2 = b1[1 + 4 := can_dlc f]
     in if can_id f AND CAN_RTR_FLAG \<noteq> 0 then b2[1 + 4 := b2 ! (1 + 4) OR 0x40] else b2)"
  have t: "tx_buf (after (mcp2515_load_txb (Some (Skb f)) abc s)) =
             memcpy b (1 + 5) (take (unat (can_dlc f)) (data f))"
    using assms(2)
    by (simp add: mcp2515_load_txb_def mcp2515_set_txbuf_def mcp2515_spi_async_def Let_def b_def)
  have lb: "length b = 14" using assms(1) by (simp add: b_def Let_def)
  have lt: "length (take (unat (can_dlc f)) (data f)) = unat (can_dlc f)"
    using assms(2,3) by simp
  have app: "memcpy b 6 (take (unat (can_dlc f)) (data f)) =
      take 6 b @ take (unat (can_dlc f)) (data f) @ drop (6 + unat (can_dlc f)) b"
    using memcpy_append [of 6 "take (unat (can_dlc f)) (data f)" b] lb lt assms(2) by simp
  show "length (tx_buf (after (mcp2515_load_txb (Some (Skb f)) abc s))) = 14"
    by (simp add: t lb)
  show "tx_buf (after (mcp2515_load_txb (Some (Skb f)) abc s)) ! 1 =
           (if can_id f AND CAN_EFF_FLAG \<noteq> 0 then ucast (drop_bit 21 (can_id f))
            else ucast (drop_bit 3 (can_id f)))"
    using assms(1) by (simp add: t memcpy_nth_below b_def Let_def eval_nat_numeral)
  show "tx_buf (after (mcp2515_load_txb (Some (Skb f)) abc s)) ! 2 =
           (if can_id f AND CAN_EFF_FLAG \<noteq> 0
            then ucast ((drop_bit 13 (can_id f) AND 0xe0) OR 8 OR (drop_bit 16 (can_id f) AND 3))
            else ucast (push_bit 5 (can_id f)))"
    using assms(1) by (simp add: t memcpy_nth_below b_def Let_def eval_nat_numeral)
  show "tx_buf (after (mcp2515_load_txb (Some (Skb f)) abc s)) ! 3 =
           (if can_id f AND CAN_EFF_FLAG \<noteq> 0 then ucast (drop_bit 8 (can_id f)) else 0)"
    using assms(1) by (simp add: t memcpy_nth_below b_def Let_def eval_nat_numeral)
  show "tx_buf (after (mcp2515_load_txb (Some (Skb f)) abc s)) ! 4 =
           (if can_id f AND CAN_EFF_FLAG \<noteq> 0 then ucast (can_id f) else 0)"
    using assms(1) by (simp add: t memcpy_nth_below b_def Let_def eval_nat_numeral)
  show "tx_buf (after (mcp2515_load_txb (Some (Skb f)) abc s)) ! 5 =
           (if can_id f AND CAN_RTR_FLAG \<noteq> 0 then can_dlc f OR 0x40 else can_dlc f)"
    using assms(1) by (simp add: t memcpy_nth_below b_def Let_def eval_nat_numeral)
  show "take (unat (can_dlc f)) (drop 6 (tx_buf (after (mcp2515_load_txb (Some (Skb f)) abc s)))) =
           take (unat (can_dlc f)) (data f)"
    using lb lt assms(2,3) by (simp add: t app)
qed

lemma ext_fields_flag:
  fixes cid :: u32
  shows "push_bit 21 (ucast (ucast (drop_bit 21 cid) :: u8)) OR
         push_bit 13 (ucast ((ucast ((drop_bit 13 cid AND 0xe0) OR 8 OR (drop_bit 16 cid AND 3)) :: u8) AND 0xe0)) OR
         push_bit 16 (ucast ((ucast ((drop_bit 13 cid AND 0xe0) OR 8 OR (drop_bit 16 cid AND 3)) :: u8) AND 3)) OR
         push_bit 8 (ucast (ucast (drop_bit 8 cid) :: u8)) OR
         ucast (ucast cid :: u8) OR 0x80000000 = take_bit 29 cid OR 0x80000000"
  using ext_fields [of cid, symmetric] by (simp only: or.assoc)

text \<open>
  C5 (as stated it fails for remote-request frames).  For every valid frame, decoding
  the bytes that the encoder has put into the transfer buffer gives a frame of the same
  length.  The identifier with both flags is recovered for every extended frame and for
  every standard frame that is no remote request.  For a standard remote request the
  identifier is recovered and the remote-request flag is lost: the encoder puts it into
  bit 6 of the DLC byte, as the chip's transmit buffer wants it, and the decoder takes it
  from the SRR bit of the SIDL byte, where the chip's receive buffer has it.  The payload
  (the first \<open>can_dlc\<close> data bytes) is recovered whenever the decoded frame has the
  remote-request flag clear; when it has the flag set, no data are copied.
\<close>

theorem encode_decode_round_trip:
  assumes "valid_can_frame f" "length (data frame0) = 8" "length (tx_buf s) = 14"
  shows "\<exists>g. effects (decode_loaded (Skb f) frame0 s) = [Netif_rx_ni g]
        \<and> can_dlc g = can_dlc f
        \<and> (can_id f AND CAN_EFF_FLAG \<noteq> 0 \<or> can_id f AND CAN_RTR_FLAG = 0 \<longrightarrow> can_id g = can_id f)
        \<and> (can_id f AND CAN_EFF_FLAG = 0 \<longrightarrow> can_id g = can_id f AND NOT CAN_RTR_FLAG)
        \<and> (can_id g AND CAN_RTR_FLAG = 0 \<longrightarrow>
             take (unat (can_dlc f)) (data g) = take (unat (can_dlc f)) (data f))
        \<and> (can_id g AND CAN_RTR_FLAG \<noteq> 0 \<longrightarrow> data g = data frame0)"
proof -
  from assms(1) have d: "unat (can_dlc f) \<le> 8" and ld: "length (data f) = 8"
    and err: "\<not> bit (can_id f) 29"
    and sff: "\<not> bit (can_id f) 31 \<Longrightarrow> can_id f AND 0x1FFFF800 = 0"
    by (simp_all add: valid_can_frame_def flag_tests)
  define t where "t = after (mcp2515_load_txb (Some (Skb f)) 0 s)"
  note img = load_txb_image [OF assms(3) d ld, of 0, folded t_def]
  have cp: "memcpy (data frame0) 0 (take (unat (can_dlc f)) (drop 6 (tx_buf t))) =
      take (unat (can_dlc f)) (data f) @ drop (unat (can_dlc f)) (data frame0)"
    using copy_payload [OF img(1) assms(2) d] img(7) by simp
  have tk: "take (unat (can_dlc f)) (take (unat (can_dlc f)) (data f) @ drop (unat (can_dlc f)) (data frame0))
      = take (unat (can_dlc f)) (data f)"
    using d ld by simp
  consider (ext) "bit (can_id f) 31" "\<not> bit (can_id f) 30"
    | (ext_rtr) "bit (can_id f) 31" "bit (can_id f) 30"
    | (std) "\<not> bit (can_id f) 31" "\<not> bit (can_id f) 30"
    | (std_rtr) "\<not> bit (can_id f) 31" "bit (can_id f) 30"
    by blast
  then show ?thesis
  proof cases
    case ext
    then show ?thesis
      using img cp tk
      by (simp add: decode_loaded_def t_def [symmetric] mcp2515_read_rxb_complete_def Let_def
          flag_tests sidl_ext dlc_byte [OF d] ext_fields_flag id_ext_plain [OF ext err])
  next
    case ext_rtr
    then show ?thesis
      using img cp tk
      by (simp add: decode_loaded_def t_def [symmetric] mcp2515_read_rxb_complete_def Let_def
          flag_tests sidl_ext dlc_byte [OF d] ext_fields_flag
          id_ext_rtr [OF ext_rtr err, unfolded or.assoc [symmetric]])
  next
    case std
    note same = trans [OF id_std [OF std(1) err sff [OF std(1)], symmetric]
        id_std_plain [OF std err sff [OF std(1)]]]
    from std show ?thesis
      using img cp tk same
      by (simp add: decode_loaded_def t_def [symmetric] mcp2515_read_rxb_complete_def Let_def
          flag_tests sidl_std dlc_byte [OF d] std_fields
          id_std_plain [OF std err sff [OF std(1)]])
  next
    case std_rtr
    then show ?thesis
      using img cp tk
      by (simp add: decode_loaded_def t_def [symmetric] mcp2515_read_rxb_complete_def Let_def
          flag_tests sidl_std dlc_byte [OF d] std_fields
          id_std [OF std_rtr(1) err sff [OF std_rtr(1)]])
  qed
qed


theorem encode_decode_round_trip_witness:
  "valid_can_frame frame_ext \<and> length (data frame_zero) = 8 \<and> length (tx_buf priv_zero) = 14
   \<and> (\<exists>g. effects (decode_loaded (Skb frame_ext) frame_zero priv_zero) = [Netif_rx_ni g]
         \<and> can_dlc g = can_dlc frame_ext \<and> can_id g = can_id frame_ext
         \<and> take (unat (can_dlc frame_ext)) (data g) =
             take (unat (can_dlc frame_ext)) (data frame_ext))"
proof -
  have v: "valid_can_frame frame_ext" by code_simp
  have l0: "length (data frame_zero) = 8" by code_simp
  have lt: "length (tx_buf priv_zero) = 14" by code_simp
  have e: "can_id frame_ext AND CAN_EFF_FLAG \<noteq> 0 \<or> can_id frame_ext AND CAN_RTR_FLAG = 0"
    by code_simp
  have nr: "can_id frame_ext AND CAN_RTR_FLAG = 0" by code_simp
  from encode_decode_round_trip [OF v l0 lt]
  obtain g where g: "effects (decode_loaded (Skb frame_ext) frame_zero priv_zero) = [Netif_rx_ni g]"
    "can_dlc g = can_dlc frame_ext"
    "can_id frame_ext AND CAN_EFF_FLAG \<noteq> 0 \<or> can_id frame_ext AND CAN_RTR_FLAG = 0 \<longrightarrow>
       can_id g = can_id frame_ext"
    "can_id g AND CAN_RTR_FLAG = 0 \<longrightarrow>
       take (unat (can_dlc frame_ext)) (data g) = take (unat (can_dlc frame_ext)) (data frame_ext)"
    by blast
  from g(3) e have i: "can_id g = can_id frame_ext" by blast
  with nr have "can_id g AND CAN_RTR_FLAG = 0" by (simp only:)
  with g(4) have "take (unat (can_dlc frame_ext)) (data g) =
      take (unat (can_dlc frame_ext)) (data frame_ext)" by blast
  with v l0 lt g(1,2) i show ?thesis by blast
qed

text \<open>
  The claim as stated, at two valid frames.  A standard remote request with identifier
  \<open>0x123\<close> comes back without its remote-request flag; an extended remote request that
  carries the data bytes \<open>0x11, 0x22\<close> comes back with the data of the fresh frame.
\<close>

theorem round_trip_loses_rtr_and_payload:
  "valid_can_frame frame_std_rtr
   \<and> can_id frame_std_rtr = 0x40000123
   \<and> effects (decode_loaded (Skb frame_std_rtr) frame_zero priv_zero) =
       [Netif_rx_ni \<lparr>can_id = 0x123, can_dlc = 0, data = [0, 0, 0, 0, 0, 0, 0, 0]\<rparr>]
   \<and> valid_can_frame frame_ext_rtr
   \<and> take (unat (can_dlc frame_ext_rtr)) (data frame_ext_rtr) = [0x11, 0x22]
   \<and> effects (decode_loaded (Skb frame_ext_rtr) frame_zero priv_zero) =
       [Netif_rx_ni \<lparr>can_id = 0xD2345678, can_dlc = 2, data = [0, 0, 0, 0, 0, 0, 0, 0]\<rparr>]"
  by code_simp

text \<open>Two frames that do come back as they were sent.\<close>

lemma round_trip_examples:
  "effects (decode_loaded (Skb frame_ext) frame_zero priv_zero) = [Netif_rx_ni frame_ext]"
  "effects (decode_loaded (Skb frame_std) frame_zero priv_zero) =
     [Netif_rx_ni \<lparr>can_id = 0x123, can_dlc = 2, data = [0x11, 0x22, 0, 0, 0, 0, 0, 0]\<rparr>]"
  by code_simp+


subsection \<open>Runs that start a message\<close>

lemma leaves_flags_refl [simp]: "leaves_flags s s"
  by (simp add: leaves_flags_def)

lemma submitted_append [simp]: "submitted (es @ es') = submitted es @ submitted es'"
  by (induction es rule: submitted.induct) simp_all



lemma starts_read_flags: "starts Read_flags_complete s (mcp2515_read_flags s)"
  by (simp add: starts_def mcp2515_read_flags_def spi_async_def Let_def leaves_flags_def)

lemma starts_read_rxb0: "starts Read_rxb0_complete s (mcp2515_read_rxb0 s)"
  by (simp add: starts_def mcp2515_read_rxb0_def mcp2515_read_rxb_def mcp2515_spi_async_def
      spi_async_def Let_def leaves_flags_def)

lemma starts_read_rxb1: "starts Read_rxb1_complete s (mcp2515_read_rxb1 s)"
  by (simp add: starts_def mcp2515_read_rxb1_def mcp2515_read_rxb_def mcp2515_spi_async_def
      spi_async_def Let_def leaves_flags_def)

lemma starts_clear_canintf: "starts Clear_canintf_complete s (mcp2515_clear_canintf s)"
  by (simp add: starts_def mcp2515_clear_canintf_def mcp2515_spi_async_def
      spi_async_def Let_def leaves_flags_def)

lemma starts_clear_eflg: "starts Clear_eflg_complete s (mcp2515_clear_eflg s)"
  by (simp add: starts_def mcp2515_clear_eflg_def mcp2515_spi_async_def
      spi_async_def Let_def leaves_flags_def)

lemma starts_rts_txb: "starts Rts_txb_complete s (mcp2515_rts_txb s)"
  by (simp add: starts_def mcp2515_rts_txb_def mcp2515_spi_async_def
      spi_async_def Let_def leaves_flags_def)

lemma load_txb_starts_or_stops:
  "starts Load_txb_complete s (mcp2515_load_txb skbp i s) \<or> stops s (mcp2515_load_txb skbp i s)"
  by (auto simp: starts_def stops_def mcp2515_load_txb_def mcp2515_spi_async_def spi_async_def
      Let_def leaves_flags_def split: option.splits result.splits prod.splits)

lemma load_pending_starts_or_stops:
  "starts Load_txb_complete (s\<lparr>tx_pending_map := snd (find_pending_tx 0 (tx_pending_map s))\<rparr>)
     (load_pending_tx s)
   \<or> stops (s\<lparr>tx_pending_map := snd (find_pending_tx 0 (tx_pending_map s))\<rparr>)
     (load_pending_tx s)"
  using load_txb_starts_or_stops
  by (auto simp: load_pending_tx_def Let_def stops_def split: prod.splits)

text \<open>Calm runs, and how they compose.\<close>

lemma calm_Run [simp]:
  "calm s (Run t es v) \<longleftrightarrow>
     tx_busy_map t = tx_busy_map s \<and> netif_queue_stopped t = netif_queue_stopped s \<and>
     Netif_stop_queue \<notin> set es \<and> Netif_wake_queue \<notin> set es \<and>
     Netif_start_queue \<notin> set es"
  by (simp add: calm_def)


lemma starts_calm: "starts cb s r \<Longrightarrow> calm s r"
  by (simp add: starts_def calm_def leaves_flags_def)

lemma stops_calm: "stops s r \<Longrightarrow> calm s r"
  by (simp add: stops_def calm_def leaves_flags_def)

lemma calm_starters_same:
  "calm s (mcp2515_read_flags s)" "calm s (mcp2515_read_rxb0 s)" "calm s (mcp2515_read_rxb1 s)"
  "calm s (mcp2515_clear_canintf s)" "calm s (mcp2515_clear_eflg s)" "calm s (mcp2515_rts_txb s)"
  "calm s (mcp2515_load_txb skbp i s)"
  using load_txb_starts_or_stops [of s skbp i]
  by (auto intro: stops_calm starts_calm [OF starts_read_flags] starts_calm [OF starts_read_rxb0]
      starts_calm [OF starts_read_rxb1] starts_calm [OF starts_clear_canintf]
      starts_calm [OF starts_clear_eflg] starts_calm [OF starts_rts_txb] starts_calm)

lemma calm_load_pending_same: "calm s (load_pending_tx s)"
  using load_pending_starts_or_stops [of s]
  by (auto dest!: starts_calm stops_calm simp: calm_def)

lemma calm_starters [simp]:
  assumes "tx_busy_map t = tx_busy_map s" "netif_queue_stopped t = netif_queue_stopped s"
  shows "calm s (mcp2515_read_flags t)" "calm s (mcp2515_read_rxb0 t)"
    "calm s (mcp2515_read_rxb1 t)" "calm s (mcp2515_clear_canintf t)"
    "calm s (mcp2515_clear_eflg t)" "calm s (mcp2515_rts_txb t)"
    "calm s (mcp2515_load_txb skbp i t)" "calm s (load_pending_tx t)"
  using assms calm_starters_same [of t] calm_load_pending_same [of t]
  by (simp_all add: calm_def)

lemma calm_transmit_or_read_flags [simp]:
  "tx_busy_map t = tx_busy_map s \<Longrightarrow> netif_queue_stopped t = netif_queue_stopped s \<Longrightarrow>
   calm s (mcp2515_transmit_or_read_flags t)"
  by (simp add: mcp2515_transmit_or_read_flags_def)

lemma calm_read_rxb_complete [simp]: "calm s (mcp2515_read_rxb_complete alloc s)"
  by (simp add: mcp2515_read_rxb_complete_def Let_def split: option.splits)











subsection \<open>The slot ring and the host's transmit queue\<close>








text \<open>The slot ring along the runs of a session.\<close>

lemma settle_fields [simp]:
  "priv (settle r a x) = after r"
  "trace (settle r a x) = trace x @ effects r"
  "outstanding (settle r a x) = outstanding x @ (if a then submitted (effects r) else [])"
  "xmit (settle r a x) = xmit x"
  "crashed (settle r a x) = (case result r of Faults e \<Rightarrow> Some e | Returns v \<Rightarrow> crashed x)"
  by (simp_all add: settle_def)

lemma received_fields [simp]:
  "tx_busy_map (received rx s) = tx_busy_map s"
  "netif_queue_stopped (received rx s) = netif_queue_stopped s"
  "busy (received rx s) = busy s"
  "interrupt (received rx s) = interrupt s"
  "tx_pending_map (received rx s) = tx_pending_map s"
  "canintf (received rx s) = canintf s"
  by (simp_all add: received_def)







text \<open>The calls of the three functions for the interface.\<close>

lemma wait_for_mode_calls:
  "set (fst (wait_for_mode mode p ps)) \<subseteq>
     {Spi_write_then_read [MCP2515_INSTRUCTION_READ, CANSTAT] 1, Schedule, Dev_err}"
proof (induction mode p ps rule: wait_for_mode.induct)
  case (1 mode err reg_stat polls)
  show ?case
  proof (cases polls)
    case Nil
    then show ?thesis by simp
  next
    case (Cons q qs)
    with 1 [of q qs] show ?thesis
      by (cases "wait_for_mode mode q qs") auto
  qed
qed
















subsection \<open>The deferred-interrupt flag\<close>

text \<open>Steady runs, and how they compose.\<close>

lemma steady_Run [simp]:
  "steady s (Run t es v) \<longleftrightarrow> interrupt t = interrupt s \<and> busy t = busy s"
  by (simp add: steady_def)

lemma steady_and_then:
  assumes "steady s r" "steady (after r) (f (after r))"
  shows "steady s (and_then r f)"
  using assms by (auto simp: steady_def and_then_def Let_def split: result.splits)

lemma starts_steady: "starts cb s r \<Longrightarrow> steady s r"
  by (simp add: starts_def steady_def leaves_flags_def)

lemma stops_steady: "stops s r \<Longrightarrow> steady s r"
  by (simp add: stops_def steady_def leaves_flags_def)

lemma steady_starters_same:
  "steady s (mcp2515_read_flags s)" "steady s (mcp2515_read_rxb0 s)"
  "steady s (mcp2515_read_rxb1 s)" "steady s (mcp2515_clear_canintf s)"
  "steady s (mcp2515_clear_eflg s)" "steady s (mcp2515_rts_txb s)"
  "steady s (mcp2515_load_txb skbp i s)"
  using load_txb_starts_or_stops [of s skbp i]
  by (auto intro: stops_steady starts_steady [OF starts_read_flags]
      starts_steady [OF starts_read_rxb0] starts_steady [OF starts_read_rxb1]
      starts_steady [OF starts_clear_canintf] starts_steady [OF starts_clear_eflg]
      starts_steady [OF starts_rts_txb] starts_steady)

lemma steady_load_pending_same: "steady s (load_pending_tx s)"
  using load_pending_starts_or_stops [of s]
  by (auto dest!: starts_steady stops_steady simp: steady_def)

lemma steady_starters [simp]:
  assumes "interrupt t = interrupt s" "busy t = busy s"
  shows "steady s (mcp2515_read_flags t)" "steady s (mcp2515_read_rxb0 t)"
    "steady s (mcp2515_read_rxb1 t)" "steady s (mcp2515_clear_canintf t)"
    "steady s (mcp2515_clear_eflg t)" "steady s (mcp2515_rts_txb t)"
    "steady s (mcp2515_load_txb skbp i t)" "steady s (load_pending_tx t)"
  using assms steady_starters_same [of t] steady_load_pending_same [of t]
  by (simp_all add: steady_def)

lemma steady_transmit_or_read_flags [simp]:
  "interrupt t = interrupt s \<Longrightarrow> busy t = busy s \<Longrightarrow> steady s (mcp2515_transmit_or_read_flags t)"
  by (simp add: mcp2515_transmit_or_read_flags_def)

lemma steady_read_rxb_complete [simp]: "steady s (mcp2515_read_rxb_complete alloc s)"
  by (simp add: mcp2515_read_rxb_complete_def Let_def split: option.splits)

lemma steady_tx_done [simp]: "steady s (tx_done i txif s)"
  by (cases "skb s ! i") (simp_all add: tx_done_def mcp2515_update_device_stats_def)

lemma steady_read_rxb0_complete: "steady s (mcp2515_read_rxb0_complete alloc s)"
  unfolding mcp2515_read_rxb0_complete_def
  by (rule steady_and_then) (simp_all add: steady_read_rxb_complete [unfolded steady_def])

lemma steady_read_rxb1_complete: "steady s (mcp2515_read_rxb1_complete alloc s)"
  unfolding mcp2515_read_rxb1_complete_def
  by (rule steady_and_then) (simp_all add: steady_read_rxb_complete [unfolded steady_def])

lemma steady_clear_canintf_complete: "steady s (mcp2515_clear_canintf_complete s)"
  unfolding mcp2515_clear_canintf_complete_def
  apply (rule steady_and_then, simp)
  apply (rule steady_and_then, simp)
  apply (rule steady_and_then, simp)
  apply (rule steady_and_then)
   apply simp_all
  done

lemma steady_complete:
  assumes "cb \<noteq> Some Read_flags_complete"
  shows "steady s (complete cb alloc s)"
proof (cases cb)
  case None
  then show ?thesis by simp
next
  case (Some c)
  with assms show ?thesis
    by (cases c)
      (simp_all add: steady_read_rxb0_complete steady_read_rxb1_complete
        steady_clear_canintf_complete mcp2515_clear_eflg_complete_def
        mcp2515_load_txb_complete_def mcp2515_rts_txb_complete_def)
qed

lemma steady_timer_cb: "busy s \<Longrightarrow> steady s (read_flags_timer_cb s)"
  by (simp add: read_flags_timer_cb_def Let_def)

lemma steady_xmit_step: "busy s \<Longrightarrow> steady s (xmit_step pc i k s)"
  by (cases pc) simp_all

lemma steady_start_xmit: "busy s \<Longrightarrow> steady s (mcp2515_start_xmit d k s)"
  by (simp add: mcp2515_start_xmit_def Let_def split: prod.splits)

lemma steady_chip_start: "steady s (mcp2515_chip_start env s)"
  by (simp add: mcp2515_chip_start_def Let_def split: prod.splits)

lemma steady_interface:
  "steady s (mcp2515_open env s)" "steady s (mcp2515_close env s)"
  "steady s (mcp2515_set_mode env mode s)"
  using steady_chip_start [of s env]
  by (cases mode; simp add: mcp2515_open_def mcp2515_close_def mcp2515_set_mode_def Let_def
      steady_def split: result.splits)+

text \<open>The deferred-interrupt flag and the completion of the status read.\<close>

lemma read_flags_fields [simp]:
  "result (mcp2515_read_flags s) = Returns ()"
  "submitted (effects (mcp2515_read_flags s)) = [Some Read_flags_complete]"
  "busy (after (mcp2515_read_flags s)) = busy s"
  "interrupt (after (mcp2515_read_flags s)) = interrupt s"
  "tx_pending_map (after (mcp2515_read_flags s)) = tx_pending_map s"
  using starts_read_flags [of s] by (simp_all add: starts_def leaves_flags_def)

lemma read_flags_complete_flag:
  defines "r \<equiv> \<lambda>s. mcp2515_read_flags_complete s"
  shows "\<not> interrupt s \<Longrightarrow> \<not> interrupt (after (r s))"
    and "interrupt s \<Longrightarrow> busy (after (r s)) = busy s"
    and "interrupt s \<Longrightarrow> \<not> interrupt (after (r s)) \<Longrightarrow>
           submitted (effects (r s)) = [Some Read_flags_complete] \<and> result (r s) = Returns ()"
proof -
  let ?F = "\<lambda>s. if canintf s AND CANINTF_RX0IF \<noteq> 0 then mcp2515_read_rxb0 s
                else if canintf s AND CANINTF_RX1IF \<noteq> 0 then mcp2515_read_rxb1 s
                else if canintf s \<noteq> 0 then mcp2515_clear_canintf s
                else if tx_pending_map s \<noteq> 0 then load_pending_tx s
                else if interrupt s then mcp2515_read_flags (s\<lparr>interrupt := False\<rparr>)
                else Run (s\<lparr>busy := False\<rparr>) [Mod_timer] (Returns ())"
  have tail: "(\<not> interrupt t \<longrightarrow> \<not> interrupt (after (?F t))) \<and>
      (interrupt t \<longrightarrow> busy (after (?F t)) = busy t) \<and>
      (interrupt t \<and> \<not> interrupt (after (?F t)) \<longrightarrow>
         submitted (effects (?F t)) = [Some Read_flags_complete] \<and> result (?F t) = Returns ())"
    for t
    using steady_starters_same(2,3,4) [of t] steady_load_pending_same [of t]
    by (simp add: steady_def)
  have eq: "r s = and_then (Run t es (Returns ())) ?F \<and> interrupt t = interrupt s \<and>
      busy t = busy s \<and> submitted es = []"
    if "t = (if extra s then s\<lparr>canintf := rx_buf s ! 2, eflg := rx_buf s ! 3, extra := False\<rparr>
             else s\<lparr>canintf := rx_buf s ! 2, eflg := rx_buf s ! 3\<rparr>)"
      "es = (if extra s \<and> (rx_buf s ! 2 \<noteq> 0 \<or> rx_buf s ! 3 \<noteq> 0) then [Netdev_dbg] else [])"
    for t es
    using that by (simp add: r_def mcp2515_read_flags_complete_def Let_def)
  obtain t es where e: "r s = and_then (Run t es (Returns ())) ?F" "interrupt t = interrupt s"
    "busy t = busy s" "submitted es = []"
    using eq by blast
  from e tail [of t] show "\<not> interrupt s \<Longrightarrow> \<not> interrupt (after (r s))"
    by simp
  from e tail [of t] show "interrupt s \<Longrightarrow> busy (after (r s)) = busy s"
    by simp
  from e tail [of t] show "interrupt s \<Longrightarrow> \<not> interrupt (after (r s)) \<Longrightarrow>
           submitted (effects (r s)) = [Some Read_flags_complete] \<and> result (r s) = Returns ()"
    by simp
qed

lemma steady_received:
  "steady s r \<Longrightarrow> steady (received rx s) r"
  "steady (received rx s) r \<Longrightarrow> steady s r"
  by (simp_all add: steady_def)

text \<open>What one step does to the deferred-interrupt flag of a busy session.\<close>

lemma step_flag:
  fixes ea :: "event \<times> bool"
  assumes "crashed x = None" "busy (priv x)"
  defines "y \<equiv> sys_step ea x"
  shows "\<not> interrupt (priv x) \<and> interrupt (priv y) \<longrightarrow>
           fst ea = Interrupt \<and> step_effects ea x = []"
    and "interrupt (priv x) \<and> \<not> interrupt (priv y) \<longrightarrow>
           completes Read_flags_complete ea x \<and>
           submitted (step_effects ea x) = [Some Read_flags_complete] \<and> busy (priv y) \<and>
           crashed y = None"
    and "interrupt (priv x) \<longrightarrow> busy (priv y)"
proof -
  obtain e a where ea: "ea = (e, a)"
    by (cases ea)
  have same: "interrupt (priv y) = interrupt (priv x) \<and> busy (priv y)"
    if "y = settle r a x'" "steady (priv x) r" for r :: "'r run" and x'
    using that assms(2) by (simp add: steady_def)
  have all: "(\<not> interrupt (priv x) \<and> interrupt (priv y) \<longrightarrow>
           fst ea = Interrupt \<and> step_effects ea x = []) \<and>
      (interrupt (priv x) \<and> \<not> interrupt (priv y) \<longrightarrow>
           completes Read_flags_complete ea x \<and>
           submitted (step_effects ea x) = [Some Read_flags_complete] \<and> busy (priv y) \<and>
           crashed y = None) \<and>
      (interrupt (priv x) \<longrightarrow> busy (priv y))"
  proof (cases "xmit x \<noteq> None \<and> waits e x")
    case True
    with ea assms(1) have "y = x"
      by (simp add: y_def sys_step_def)
    with assms(2) show ?thesis
      by simp
  next
    case go: False
    show ?thesis
    proof (cases e)
      case Interrupt
      with ea go assms(1,2) have st: "sys_step ea x = x\<lparr>priv := (priv x)\<lparr>interrupt := True\<rparr>\<rparr>"
        by (simp add: sys_step_def settle_def mcp2515_softirq_handler_def)
      with ea Interrupt assms(2) show ?thesis
        by (simp add: step_effects_def y_def)
    next
      case Timer_expiry
      with ea go assms(1) have "y = settle (read_flags_timer_cb (priv x)) a x"
        by (simp add: y_def sys_step_def)
      from same [OF this steady_timer_cb [OF assms(2)]] show ?thesis
        by simp
    next
      case (Host_xmit d k)
      with ea go assms(1) have "y = settle (mcp2515_start_xmit d k (priv x)) a x"
        by (simp add: y_def sys_step_def)
      from same [OF this steady_start_xmit [OF assms(2)]] show ?thesis
        by simp
    next
      case (Xmit_enter d k)
      with ea go assms(1,2) have "interrupt (priv y) = interrupt (priv x) \<and> busy (priv y)"
        by (simp add: y_def sys_step_def xmit_enter_def Let_def split: prod.splits)
      then show ?thesis
        by simp
    next
      case Xmit_advance
      show ?thesis
      proof (cases "xmit x")
        case None
        with ea Xmit_advance assms(1) have "y = x"
          by (simp add: y_def sys_step_def advance_def)
        with assms(2) show ?thesis
          by simp
      next
        case (Some p)
        obtain pc i k where p: "p = (pc, i, k)"
          by (cases p)
        define x' where "x' = x\<lparr>xmit := (case result (xmit_step pc i k (priv x)) of
                               Returns (Some pc') \<Rightarrow> Some (pc', i, k)
                             | _ \<Rightarrow> None)\<rparr>"
        from ea Xmit_advance assms(1) Some p
        have "y = settle (xmit_step pc i k (priv x)) a x'"
          by (simp add: y_def sys_step_def advance_def Let_def x'_def)
        from same [OF this steady_xmit_step [OF assms(2)]] show ?thesis
          by simp
      qed
    next
      case (Dev_open env)
      with ea go assms(1) have "y = settle (mcp2515_open env (priv x)) a x"
        by (simp add: y_def sys_step_def)
      from same [OF this steady_interface(1)] show ?thesis
        by simp
    next
      case (Dev_close env)
      with ea go assms(1) have "y = settle (mcp2515_close env (priv x)) a x"
        by (simp add: y_def sys_step_def)
      from same [OF this steady_interface(2)] show ?thesis
        by simp
    next
      case (Dev_set_mode mode env)
      with ea go assms(1) have "y = settle (mcp2515_set_mode env mode (priv x)) a x"
        by (simp add: y_def sys_step_def)
      from same [OF this steady_interface(3)] show ?thesis
        by simp
    next
      case (Spi_complete rx alloc)
      show ?thesis
      proof (cases "outstanding x")
        case Nil
        with ea Spi_complete assms(1) have "y = x"
          by (simp add: y_def sys_step_def)
        with assms(2) show ?thesis
          by simp
      next
        case (Cons cb rest)
        define s where "s = received rx (priv x)"
        from go Spi_complete Cons
        have "xmit x = None \<or> \<not> takes_lock cb (received rx (priv x))"
          by (cases "xmit x") auto
        with ea Spi_complete assms(1) Cons
        have y: "y = settle (complete cb alloc s) a (x\<lparr>outstanding := rest\<rparr>)"
          by (auto simp: y_def sys_step_def s_def)
        show ?thesis
        proof (cases "cb = Some Read_flags_complete")
          case False
          from steady_complete [OF False, of s alloc]
          have "steady (priv x) (complete cb alloc s)"
            by (simp add: s_def steady_def)
          from same [OF y this] show ?thesis
            by simp
        next
          case True
          have s: "interrupt s = interrupt (priv x)" "busy s = busy (priv x)"
            by (simp_all add: s_def)
          have eff: "step_effects (Spi_complete rx alloc, a) x =
              effects (mcp2515_read_flags_complete s)"
            using y True unfolding y_def ea Spi_complete by (simp add: step_effects_def)
          from read_flags_complete_flag [of s] s assms(1,2) True Cons ea Spi_complete
          show ?thesis
            by (auto simp: y eff completes_def)
        qed
      qed
    qed
  qed
  from all show "\<not> interrupt (priv x) \<and> interrupt (priv y) \<longrightarrow>
           fst ea = Interrupt \<and> step_effects ea x = []"
    by blast
  from all show "interrupt (priv x) \<and> \<not> interrupt (priv y) \<longrightarrow>
           completes Read_flags_complete ea x \<and>
           submitted (step_effects ea x) = [Some Read_flags_complete] \<and> busy (priv y) \<and>
           crashed y = None"
    by blast
  from all show "interrupt (priv x) \<longrightarrow> busy (priv y)"
    by blast
qed

text \<open>Any number of interrupts while busy.\<close>

lemma softirq_busy_step:
  assumes "crashed x = None" "busy (priv x)" "xmit x = None"
  shows "sys_step (Interrupt, a) x = x\<lparr>priv := (priv x)\<lparr>interrupt := True\<rparr>\<rparr>"
  using assms by (simp add: sys_step_def settle_def mcp2515_softirq_handler_def)

lemma softirq_busy_again:
  assumes "busy (priv x)"
  shows "sys_step (Interrupt, a) (sys_step (Interrupt, a) x) = sys_step (Interrupt, a) x"
proof (cases "crashed x = None \<and> xmit x = None")
  case True
  with assms show ?thesis
    by (simp add: softirq_busy_step)
next
  case False
  then have "sys_step (Interrupt, a) x = x"
    by (auto simp: sys_step_def)
  then show ?thesis
    by simp
qed

lemma interrupts_while_busy:
  assumes "busy (priv x)" "0 < n"
  shows "run_events (replicate n (Interrupt, a)) x = sys_step (Interrupt, a) x"
proof -
  have stay: "run_events (replicate m (Interrupt, a)) y = y"
    if "sys_step (Interrupt, a) y = y" for m y
    using that by (induction m) simp_all
  from assms(2) obtain m where n: "n = Suc m"
    by (cases n) simp_all
  from stay [OF softirq_busy_again [OF assms(1), of a], of m] show ?thesis
    by (simp add: n)
qed

text \<open>
  The completion of a status read that has brought no flag, with no slot pending and no
  transmit call between its statements.
\<close>

lemma status_read_completes:
  fixes alloc :: "can_frame option" and a :: bool
  assumes "crashed x = None" "outstanding x = Some Read_flags_complete # rest"
    "xmit x = None" "tx_pending_map (priv x) = 0" "rx_buf (received rx (priv x)) ! 2 = 0"
  defines "z \<equiv> sys_step (Spi_complete rx alloc, a) x"
  shows "interrupt (priv x) \<Longrightarrow>
           crashed z = None \<and> busy (priv z) = busy (priv x) \<and> \<not> interrupt (priv z) \<and>
           submitted (step_effects (Spi_complete rx alloc, a) x) = [Some Read_flags_complete] \<and>
           tx_pending_map (priv z) = 0"
    and "\<not> interrupt (priv x) \<Longrightarrow>
           crashed z = None \<and> \<not> busy (priv z) \<and> \<not> interrupt (priv z) \<and>
           submitted (step_effects (Spi_complete rx alloc, a) x) = [] \<and>
           Mod_timer \<in> set (step_effects (Spi_complete rx alloc, a) x)"
proof -
  define s where "s = received rx (priv x)"
  define r where "r = mcp2515_read_flags_complete s"
  have z: "z = settle r a (x\<lparr>outstanding := rest\<rparr>)"
    using assms(1-3) by (simp add: z_def sys_step_def s_def r_def)
  have eff: "step_effects (Spi_complete rx alloc, a) x = effects r"
    using z by (simp add: step_effects_def z_def [symmetric])
  have s: "rx_buf s ! 2 = 0" "tx_pending_map s = 0" "interrupt s = interrupt (priv x)"
    "busy s = busy (priv x)"
    using assms(4,5) by (simp_all add: s_def)
  have fin: "interrupt s \<Longrightarrow>
           result r = Returns () \<and> submitted (effects r) = [Some Read_flags_complete] \<and>
           \<not> interrupt (after r) \<and> busy (after r) = busy s \<and> tx_pending_map (after r) = 0"
    "\<not> interrupt s \<Longrightarrow>
           result r = Returns () \<and> submitted (effects r) = [] \<and> \<not> busy (after r) \<and>
           \<not> interrupt (after r) \<and> Mod_timer \<in> set (effects r)"
    using s(1,2) unfolding r_def mcp2515_read_flags_complete_def Let_def
    by (cases "extra s"; simp)+
  show "crashed z = None \<and> busy (priv z) = busy (priv x) \<and> \<not> interrupt (priv z) \<and>
           submitted (step_effects (Spi_complete rx alloc, a) x) = [Some Read_flags_complete] \<and>
           tx_pending_map (priv z) = 0" if "interrupt (priv x)"
    using fin(1) that s(3,4) assms(1) by (simp add: z eff)
  show "crashed z = None \<and> \<not> busy (priv z) \<and> \<not> interrupt (priv z) \<and>
           submitted (step_effects (Spi_complete rx alloc, a) x) = [] \<and>
           Mod_timer \<in> set (step_effects (Spi_complete rx alloc, a) x)" if "\<not> interrupt (priv x)"
    using fin(2) that s(3,4) assms(1) by (simp add: z eff)
qed

text \<open>
  C4 (as stated it fails: the flag is consumed, and can be set again, within one busy
  period).  Take a session that is busy and has not faulted, whatever is in flight.
  \<^item> Any number \<open>n > 0\<close> of interrupts leaves it as a single interrupt does; and that is,
    when no transmit call holds the lock, with the deferred-interrupt flag set and
    nothing else changed.
  \<^item> A step sets the flag only if it is an interrupt, and then it makes no call.
  \<^item> A step clears the flag only if it is the completion of a status read, and then it
    submits exactly one status read, leaves busy set and does not fault.
  \<^item> While the flag is set no step clears busy.
  \<^item> The completion of a status read that has brought no flag, with no slot pending,
    clears the flag and submits exactly one more status read when the flag is set, and
    goes idle, submitting nothing, when it is not.
\<close>

theorem deferred_interrupts_coalesce_until_consumed:
  fixes ea :: "event \<times> bool" and a b :: bool and alloc :: "can_frame option"
    and rx :: "u8 list" and rest :: "completion option list"
  assumes "crashed x = None" and "busy (priv x)"
  defines "y \<equiv> sys_step ea x"
  defines "z \<equiv> sys_step (Spi_complete rx alloc, b) x"
  shows "(0 < n \<longrightarrow> run_events (replicate n (Interrupt, a)) x = sys_step (Interrupt, a) x) \<and>
    (xmit x = None \<longrightarrow> sys_step (Interrupt, a) x = x\<lparr>priv := (priv x)\<lparr>interrupt := True\<rparr>\<rparr>) \<and>
    (\<not> interrupt (priv x) \<and> interrupt (priv y) \<longrightarrow>
       fst ea = Interrupt \<and> step_effects ea x = []) \<and>
    (interrupt (priv x) \<and> \<not> interrupt (priv y) \<longrightarrow>
       completes Read_flags_complete ea x \<and>
       submitted (step_effects ea x) = [Some Read_flags_complete] \<and>
       busy (priv y) \<and> crashed y = None) \<and>
    (interrupt (priv x) \<longrightarrow> busy (priv y)) \<and>
    (outstanding x = Some Read_flags_complete # rest \<and> xmit x = None \<and>
     tx_pending_map (priv x) = 0 \<and> rx_buf (received rx (priv x)) ! 2 = 0 \<longrightarrow>
       (if interrupt (priv x)
        then \<not> interrupt (priv z) \<and> busy (priv z) \<and>
             submitted (step_effects (Spi_complete rx alloc, b) x) = [Some Read_flags_complete]
        else \<not> busy (priv z) \<and>
             submitted (step_effects (Spi_complete rx alloc, b) x) = [] \<and>
             Mod_timer \<in> set (step_effects (Spi_complete rx alloc, b) x)))"
proof -
  have 1: "0 < n \<longrightarrow> run_events (replicate n (Interrupt, a)) x = sys_step (Interrupt, a) x"
    using interrupts_while_busy [OF assms(2)] by blast
  have 2: "xmit x = None \<longrightarrow>
      sys_step (Interrupt, a) x = x\<lparr>priv := (priv x)\<lparr>interrupt := True\<rparr>\<rparr>"
    using softirq_busy_step [OF assms(1,2)] by blast
  note 3 = step_flag [OF assms(1,2), of ea, folded y_def]
  have 4: "outstanding x = Some Read_flags_complete # rest \<and> xmit x = None \<and>
     tx_pending_map (priv x) = 0 \<and> rx_buf (received rx (priv x)) ! 2 = 0 \<longrightarrow>
       (if interrupt (priv x)
        then \<not> interrupt (priv z) \<and> busy (priv z) \<and>
             submitted (step_effects (Spi_complete rx alloc, b) x) = [Some Read_flags_complete]
        else \<not> busy (priv z) \<and>
             submitted (step_effects (Spi_complete rx alloc, b) x) = [] \<and>
             Mod_timer \<in> set (step_effects (Spi_complete rx alloc, b) x))"
    using status_read_completes [OF assms(1), of rest rx alloc b, folded z_def] assms(2)
    by simp
  from 1 2 3 4 show ?thesis
    by blast
qed

text \<open>
  Three interrupts arrive while the read of receive buffer 0 is in flight: they leave the
  flag set once; the status read after that read consumes it with one extra status read,
  and the session is idle after four messages in all.
\<close>

theorem deferred_interrupts_coalesce_until_consumed_witness:
  "run_events (replicate 3 (Interrupt, True))
     (run_events (take 2 rxb_deferred_events) session_init) =
     (run_events (take 2 rxb_deferred_events) session_init)
       \<lparr>priv := (priv (run_events (take 2 rxb_deferred_events) session_init))
                  \<lparr>interrupt := True\<rparr>\<rparr> \<and>
   outstanding (run_events (take 2 rxb_deferred_events) session_init) =
     [Some Read_rxb0_complete] \<and>
   interrupt (priv (run_events (take 6 rxb_deferred_events) session_init)) \<and>
   \<not> interrupt (priv (sys_step (Spi_complete (flags_response 0 0) None, True)
                         (run_events (take 6 rxb_deferred_events) session_init))) \<and>
   busy (priv (sys_step (Spi_complete (flags_response 0 0) None, True)
                 (run_events (take 6 rxb_deferred_events) session_init))) \<and>
   submitted (step_effects (Spi_complete (flags_response 0 0) None, True)
                (run_events (take 6 rxb_deferred_events) session_init)) =
     [Some Read_flags_complete] \<and>
   submitted (trace (run_events rxb_deferred_events session_init)) =
     [Some Read_flags_complete, Some Read_rxb0_complete, Some Read_flags_complete,
      Some Read_flags_complete] \<and>
   \<not> busy (priv (run_events rxb_deferred_events session_init))"
proof -
  have h2: "crashed (run_events (take 2 rxb_deferred_events) session_init) = None"
    "busy (priv (run_events (take 2 rxb_deferred_events) session_init))"
    "xmit (run_events (take 2 rxb_deferred_events) session_init) = None"
    "outstanding (run_events (take 2 rxb_deferred_events) session_init) =
       [Some Read_rxb0_complete]"
    by code_simp+
  have h6: "crashed (run_events (take 6 rxb_deferred_events) session_init) = None"
    "busy (priv (run_events (take 6 rxb_deferred_events) session_init))"
    "outstanding (run_events (take 6 rxb_deferred_events) session_init) =
       Some Read_flags_complete # []"
    "xmit (run_events (take 6 rxb_deferred_events) session_init) = None"
    "tx_pending_map (priv (run_events (take 6 rxb_deferred_events) session_init)) = 0"
    "rx_buf (received (flags_response 0 0)
       (priv (run_events (take 6 rxb_deferred_events) session_init))) ! 2 = 0"
    "interrupt (priv (run_events (take 6 rxb_deferred_events) session_init))"
    by code_simp+
  have all: "submitted (trace (run_events rxb_deferred_events session_init)) =
     [Some Read_flags_complete, Some Read_rxb0_complete, Some Read_flags_complete,
      Some Read_flags_complete]"
    "\<not> busy (priv (run_events rxb_deferred_events session_init))"
    by code_simp+
  have n: "0 < (3 :: nat)"
    by simp
  from deferred_interrupts_coalesce_until_consumed [OF h2(1,2), of 3 True]
    h2(3) n
  have a: "run_events (replicate 3 (Interrupt, True))
     (run_events (take 2 rxb_deferred_events) session_init) =
     (run_events (take 2 rxb_deferred_events) session_init)
       \<lparr>priv := (priv (run_events (take 2 rxb_deferred_events) session_init))
                  \<lparr>interrupt := True\<rparr>\<rparr>"
    by metis
  from deferred_interrupts_coalesce_until_consumed [OF h6(1,2),
      of _ _ _ "[]" "flags_response 0 0" None True] h6(3-7)
  have b: "\<not> interrupt (priv (sys_step (Spi_complete (flags_response 0 0) None, True)
                         (run_events (take 6 rxb_deferred_events) session_init))) \<and>
   busy (priv (sys_step (Spi_complete (flags_response 0 0) None, True)
                 (run_events (take 6 rxb_deferred_events) session_init))) \<and>
   submitted (step_effects (Spi_complete (flags_response 0 0) None, True)
                (run_events (take 6 rxb_deferred_events) session_init)) =
     [Some Read_flags_complete]"
    by metis
  from a b h2(4) h6(7) all show ?thesis
    by blast
qed

text \<open>
  The claim as stated, at a concrete input: in one busy period an interrupt arrives
  before the first status read completes and another before the second does.  The flag
  is set twice, and three status reads are made before the session is idle, two of them
  extra.
\<close>

theorem two_deferred_interrupts_in_one_busy_period:
  "busy (priv (run_events (take 1 two_deferred_events) session_init)) \<and>
   \<not> interrupt (priv (run_events (take 1 two_deferred_events) session_init)) \<and>
   busy (priv (run_events (take 2 two_deferred_events) session_init)) \<and>
   interrupt (priv (run_events (take 2 two_deferred_events) session_init)) \<and>
   busy (priv (run_events (take 3 two_deferred_events) session_init)) \<and>
   \<not> interrupt (priv (run_events (take 3 two_deferred_events) session_init)) \<and>
   busy (priv (run_events (take 4 two_deferred_events) session_init)) \<and>
   interrupt (priv (run_events (take 4 two_deferred_events) session_init)) \<and>
   busy (priv (run_events (take 5 two_deferred_events) session_init)) \<and>
   \<not> busy (priv (run_events two_deferred_events session_init)) \<and>
   submitted (trace (run_events two_deferred_events session_init)) =
     [Some Read_flags_complete, Some Read_flags_complete, Some Read_flags_complete]"
  by code_simp


subsection \<open>One message in flight\<close>

lemma paced_Run [simp]:
  "paced (Run t es v) \<longleftrightarrow> length (submitted es) \<le> 1 \<and> (submitted es = [] \<or> busy t)"
  by (simp add: paced_def)

lemma and_then_paced:
  assumes "submitted (effects r) = []" "paced (f (after r))"
  shows "paced (and_then r f)"
  using assms by (simp add: paced_def and_then_def Let_def split: result.splits)

lemma starts_paced: "starts cb s r \<Longrightarrow> busy s \<Longrightarrow> paced r"
  by (simp add: starts_def paced_def leaves_flags_def)

lemma stops_paced: "stops s r \<Longrightarrow> paced r"
  by (simp add: stops_def paced_def)

lemma paced_starters [simp]:
  assumes "busy t"
  shows "paced (mcp2515_read_flags t)" "paced (mcp2515_read_rxb0 t)"
    "paced (mcp2515_read_rxb1 t)" "paced (mcp2515_clear_canintf t)"
    "paced (mcp2515_clear_eflg t)" "paced (mcp2515_rts_txb t)"
    "paced (mcp2515_load_txb skbp i t)" "paced (load_pending_tx t)"
  using assms load_txb_starts_or_stops [of t skbp i] load_pending_starts_or_stops [of t]
  by (auto intro: stops_paced starts_paced [OF starts_read_flags]
      starts_paced [OF starts_read_rxb0] starts_paced [OF starts_read_rxb1]
      starts_paced [OF starts_clear_canintf] starts_paced [OF starts_clear_eflg]
      starts_paced [OF starts_rts_txb] starts_paced)

lemma paced_transmit_or_read_flags [simp]:
  "busy t \<Longrightarrow> paced (mcp2515_transmit_or_read_flags t)"
  by (simp add: mcp2515_transmit_or_read_flags_def)

lemma read_rxb_complete_silent [simp]:
  "submitted (effects (mcp2515_read_rxb_complete alloc s)) = []"
  "busy (after (mcp2515_read_rxb_complete alloc s)) = busy s"
  by (simp_all add: mcp2515_read_rxb_complete_def Let_def split: option.splits)

lemma tx_done_silent [simp]:
  "submitted (effects (tx_done i txif s)) = []"
  "busy (after (tx_done i txif s)) = busy s"
  by (cases "skb s ! i"; simp add: tx_done_def mcp2515_update_device_stats_def)+

text \<open>Every completion callback is paced when it runs with busy set.\<close>

lemma paced_read_flags_complete: "busy s \<Longrightarrow> paced (mcp2515_read_flags_complete s)"
  unfolding mcp2515_read_flags_complete_def Let_def
  by (rule and_then_paced) simp_all

lemma paced_read_rxb0_complete: "busy s \<Longrightarrow> paced (mcp2515_read_rxb0_complete alloc s)"
  unfolding mcp2515_read_rxb0_complete_def
  by (rule and_then_paced) simp_all

lemma paced_read_rxb1_complete: "busy s \<Longrightarrow> paced (mcp2515_read_rxb1_complete alloc s)"
  unfolding mcp2515_read_rxb1_complete_def
  by (rule and_then_paced) simp_all

lemma paced_clear_canintf_complete: "busy s \<Longrightarrow> paced (mcp2515_clear_canintf_complete s)"
  unfolding mcp2515_clear_canintf_complete_def
  apply (rule and_then_paced, simp)
  apply (rule and_then_paced, simp)
  apply (rule and_then_paced, simp)
  apply (rule and_then_paced)
   apply simp_all
  done

lemma paced_complete: "busy s \<Longrightarrow> paced (complete cb alloc s)"
proof (cases cb)
  case None
  then show ?thesis by simp
next
  case (Some c)
  assume "busy s"
  with Some show ?thesis
    by (cases c)
      (simp_all add: paced_read_flags_complete paced_read_rxb0_complete
        paced_read_rxb1_complete paced_clear_canintf_complete
        mcp2515_clear_eflg_complete_def mcp2515_load_txb_complete_def
        mcp2515_rts_txb_complete_def)
qed

text \<open>
  Every wake source is paced, and when busy is set it submits nothing and leaves busy
  set.
\<close>

lemma softirq_handler_paced:
  "paced (mcp2515_softirq_handler s)"
  "busy s \<Longrightarrow> submitted (effects (mcp2515_softirq_handler s)) = [] \<and>
     busy (after (mcp2515_softirq_handler s))"
  by (simp_all add: mcp2515_softirq_handler_def)

lemma timer_cb_paced:
  "paced (read_flags_timer_cb s)"
  "busy s \<Longrightarrow> submitted (effects (read_flags_timer_cb s)) = [] \<and>
     busy (after (read_flags_timer_cb s))"
  by (simp_all add: read_flags_timer_cb_def Let_def)

lemma start_xmit_paced:
  "paced (mcp2515_start_xmit d k s)"
  "busy s \<Longrightarrow> submitted (effects (mcp2515_start_xmit d k s)) = [] \<and>
     busy (after (mcp2515_start_xmit d k s))"
proof -
  obtain i m where f: "find_free_tx 0 (tx_busy_map s) = (i, m)"
    by force
  have load: "paced (and_then (mcp2515_load_txb (Some k) i t) (\<lambda>s. Run s [] (Returns NETDEV_TX_OK)))"
    if "busy t" for t
    using paced_starters(7) [OF that, of "Some k" i]
    by (simp add: paced_def and_then_def Let_def split: result.splits)
  show "paced (mcp2515_start_xmit d k s)"
    using f load [unfolded paced_def] by (auto simp: mcp2515_start_xmit_def Let_def load)
  show "submitted (effects (mcp2515_start_xmit d k s)) = [] \<and>
     busy (after (mcp2515_start_xmit d k s))" if "busy s"
    using f that by (simp add: mcp2515_start_xmit_def Let_def)
qed

text \<open>The pieces of the transmit entry point and the calls for the interface.\<close>

lemma xmit_step_paced:
  "paced (xmit_step pc i k s)"
  "busy s \<Longrightarrow> submitted (effects (xmit_step pc i k s)) = [] \<and> busy (after (xmit_step pc i k s))"
proof -
  have load: "paced (and_then (mcp2515_load_txb (Some k) i t) (\<lambda>s. Run s [] (Returns None)))"
    if "busy t" for t
    using paced_starters(7) [OF that, of "Some k" i]
    by (simp add: paced_def and_then_def Let_def split: result.splits)
  show "paced (xmit_step pc i k s)"
    by (cases pc) (simp_all add: load)
  show "submitted (effects (xmit_step pc i k s)) = [] \<and> busy (after (xmit_step pc i k s))"
    if "busy s"
    using that by (cases pc) simp_all
qed

lemma submitted_none:
  "(\<And>c bs. Spi_async c bs \<notin> set es) \<Longrightarrow> submitted es = []"
  by (induction es rule: submitted.induct) auto

lemma chip_start_silent:
  "submitted (effects (mcp2515_chip_start env s)) = []"
  "busy (after (mcp2515_chip_start env s)) = busy s"
proof -
  have "Spi_async c bs \<notin> set (effects (mcp2515_chip_start env s))" for c bs
    using wait_for_mode_calls [of "CANCTRL_REQOP_LOOPBACK" "canstat_first env" "canstat_more env"]
      wait_for_mode_calls [of "CANCTRL_REQOP_LISTEN_ONLY" "canstat_first env" "canstat_more env"]
      wait_for_mode_calls [of "CANCTRL_REQOP_NORMAL" "canstat_first env" "canstat_more env"]
    by (auto simp: mcp2515_chip_start_def Let_def mcp2515_hw_reset_def
        mcp2515_switch_regulator_def split: prod.splits)
  then show "submitted (effects (mcp2515_chip_start env s)) = []"
    by (rule submitted_none)
  show "busy (after (mcp2515_chip_start env s)) = busy s"
    using steady_chip_start [of s env] by (simp add: steady_def)
qed

lemma interface_silent:
  "submitted (effects (mcp2515_open env s)) = [] \<and> busy (after (mcp2515_open env s)) = busy s"
  "submitted (effects (mcp2515_close env s)) = [] \<and> busy (after (mcp2515_close env s)) = busy s"
  "submitted (effects (mcp2515_set_mode env mode s)) = [] \<and>
     busy (after (mcp2515_set_mode env mode s)) = busy s"
  using chip_start_silent [of env s]
  by (cases mode; simp add: mcp2515_open_def mcp2515_close_def mcp2515_set_mode_def
      mcp2515_chip_stop_def mcp2515_hw_reset_def mcp2515_hw_sleep_def
      mcp2515_switch_regulator_def Let_def split: result.splits)+

text \<open>
  One message in flight, along the runs of a session: whatever the events and whatever
  the SPI core accepts, at most one message is outstanding, and busy is set while one
  is.  (A run that has ended in a fault stays as it is.)
\<close>

lemma settle_single:
  assumes "length (outstanding x) \<le> 1" "outstanding x = [] \<or> busy (priv x)"
    "paced r" "busy (priv x) \<Longrightarrow> submitted (effects r) = [] \<and> busy (after r)"
    "outstanding x' = outstanding x" "priv x' = priv x"
  shows "length (outstanding (settle r a x')) \<le> 1 \<and>
     (outstanding (settle r a x') = [] \<or> busy (priv (settle r a x')))"
  using assms by (auto simp: paced_def)

lemma sys_step_single:
  assumes "length (outstanding x) \<le> 1" "outstanding x = [] \<or> busy (priv x)"
  shows "length (outstanding (sys_step ea x)) \<le> 1 \<and>
     (outstanding (sys_step ea x) = [] \<or> busy (priv (sys_step ea x)))"
proof (cases "crashed x \<noteq> None \<or> xmit x \<noteq> None \<and> waits (fst ea) x")
  case True
  with assms show ?thesis by (auto simp: sys_step_def)
next
  case False
  then have go: "crashed x = None" "\<not> (xmit x \<noteq> None \<and> waits (fst ea) x)"
    by simp_all
  obtain e a where ea: "ea = (e, a)"
    by (cases ea)
  note single = settle_single [OF assms, where x' = x, simplified]
  show ?thesis
  proof (cases e)
    case Interrupt
    with ea go single [OF softirq_handler_paced] show ?thesis
      by (simp add: sys_step_def)
  next
    case Timer_expiry
    with ea go single [OF timer_cb_paced] show ?thesis
      by (simp add: sys_step_def)
  next
    case (Host_xmit d k)
    with ea go single [OF start_xmit_paced] show ?thesis
      by (simp add: sys_step_def)
  next
    case (Spi_complete rx alloc)
    show ?thesis
    proof (cases "outstanding x")
      case Nil
      with ea go assms Spi_complete show ?thesis
        by (simp add: sys_step_def)
    next
      case (Cons cb rest)
      from Cons assms have r: "rest = []" "busy (received rx (priv x))"
        by simp_all
      from go(2) ea Spi_complete Cons
      have "xmit x = None \<or> \<not> takes_lock cb (received rx (priv x))"
        by (cases "xmit x") auto
      with paced_complete [OF r(2), of cb alloc] r(1) go(1) ea Spi_complete Cons show ?thesis
        by (auto simp: sys_step_def paced_def)
    qed
  next
    case (Xmit_enter d k)
    with ea go assms show ?thesis
      by (auto simp: sys_step_def xmit_enter_def Let_def split: prod.splits)
  next
    case Xmit_advance
    show ?thesis
    proof (cases "xmit x")
      case None
      with ea go assms Xmit_advance show ?thesis
        by (simp add: sys_step_def advance_def)
    next
      case (Some p)
      obtain pc i k where p: "p = (pc, i, k)"
        by (cases p)
      define x' where "x' = x\<lparr>xmit := (case result (xmit_step pc i k (priv x)) of
                               Returns (Some pc') \<Rightarrow> Some (pc', i, k)
                             | _ \<Rightarrow> None)\<rparr>"
      from ea Xmit_advance go(1) Some p
      have y: "sys_step ea x = settle (xmit_step pc i k (priv x)) a x'"
        by (simp add: sys_step_def advance_def Let_def x'_def)
      have x': "outstanding x' = outstanding x" "priv x' = priv x"
        by (simp_all add: x'_def)
      from settle_single [OF assms xmit_step_paced x'] show ?thesis
        by (simp add: y)
    qed
  next
    case (Dev_open env)
    with ea go assms interface_silent(1) [of env "priv x"] show ?thesis
      by (auto simp: sys_step_def)
  next
    case (Dev_close env)
    with ea go assms interface_silent(2) [of env "priv x"] show ?thesis
      by (auto simp: sys_step_def)
  next
    case (Dev_set_mode mode env)
    with ea go assms interface_silent(3) [of env mode "priv x"] show ?thesis
      by (auto simp: sys_step_def)
  qed
qed

lemma single_message_in_flight:
  "length (outstanding (run_events evs session_init)) \<le> 1 \<and>
   (outstanding (run_events evs session_init) = [] \<or> busy (priv (run_events evs session_init)))"
proof -
  have "length (outstanding (run_events evs x)) \<le> 1 \<and>
     (outstanding (run_events evs x) = [] \<or> busy (priv (run_events evs x)))"
    if "length (outstanding x) \<le> 1" "outstanding x = [] \<or> busy (priv x)" for x
    using that
  proof (induction evs arbitrary: x)
    case Nil
    then show ?case by simp
  next
    case (Cons ea evs)
    from sys_step_single [OF Cons.prems, of ea] Cons.IH [of "sys_step ea x"]
    show ?case by simp
  qed
  then show ?thesis
    by (simp add: session_init_def)
qed


subsection \<open>The transmit entry point in pieces\<close>

text \<open>
  The transmit entry point run statement by statement, with nothing in between, is the
  transmit entry point run as a whole.
\<close>

lemma settle_nothing: "settle (Run (priv x) [] (Returns v)) a x = x"
  by (simp add: settle_def)

lemma host_xmit_in_steps:
  assumes "crashed x = None" "xmit x = None"
  shows "run_events [(Xmit_enter d k, a), (Xmit_advance, a), (Xmit_advance, a),
                     (Xmit_advance, a), (Xmit_advance, a), (Xmit_advance, a)] x =
         sys_step (Host_xmit d k, a) x"
proof (cases d)
  case True
  with assms show ?thesis
    by (simp add: sys_step_def advance_def mcp2515_start_xmit_def settle_nothing)
next
  case False
  obtain i m where f: "find_free_tx 0 (tx_busy_map (priv x)) = (i, m)"
    by force
  define x1 where "x1 = x\<lparr>priv := (priv x)\<lparr>tx_busy_map := m\<rparr>, xmit := Some (Xmit_test, i, k)\<rparr>"
  have e: "sys_step (Xmit_enter d k, a) x = x1"
    using assms False f by (simp add: sys_step_def xmit_enter_def x1_def)
  have whole: "sys_step (Host_xmit d k, a) x =
      settle (mcp2515_start_xmit False k (priv x)) a x"
    using assms False by (simp add: sys_step_def)
  have x1: "crashed x1 = None" "xmit x1 = Some (Xmit_test, i, k)"
    using assms by (simp_all add: x1_def)
  show ?thesis
    unfolding run_events.simps e whole
    using assms f
    by (cases "7 \<le> m"; cases "3 \<le> i"; cases "busy (priv x)";
        cases "result (mcp2515_load_txb (Some k) i
                 ((priv x)\<lparr>tx_busy_map := m, netif_queue_stopped := True,
                            skb := (skb (priv x))[i := Some k], busy := True\<rparr>))";
        cases "result (mcp2515_load_txb (Some k) i
                 ((priv x)\<lparr>tx_busy_map := m,
                            skb := (skb (priv x))[i := Some k], busy := True\<rparr>))";
        simp add: x1_def sys_step_def advance_def settle_def mcp2515_start_xmit_def Let_def
          and_then_def)
qed


subsection \<open>A transmit flag for a pending slot\<close>

text \<open>
  C1 (the code breaks it).  The session is busy with a status read when a frame is
  queued into slot 0 and marked pending.  The status read brings the transmit flag of
  slot 0; the completion of the clear-flags message releases the slot and sets its entry
  to \<open>NULL\<close>, although it is still pending.  The next status read brings nothing, so its
  completion dequeues slot 0 and loads it: \<open>mcp2515_load_txb\<close> dereferences the \<open>NULL\<close>
  entry.  The handler neither submits a message nor goes idle: nothing is outstanding
  and busy stays set.
\<close>

theorem stale_tx_flag_null_skb:
  "crashed (run_events (take 4 stale_tx_flag_events) session_init) = None \<and>
   busy (priv (run_events (take 4 stale_tx_flag_events) session_init)) \<and>
   outstanding (run_events (take 4 stale_tx_flag_events) session_init) =
     [Some Read_flags_complete] \<and>
   tx_pending_map (priv (run_events (take 4 stale_tx_flag_events) session_init)) = 1 \<and>
   skb (priv (run_events (take 4 stale_tx_flag_events) session_init)) ! 0 = None \<and>
   crashed (run_events stale_tx_flag_events session_init) = Some Null_skb_dereference \<and>
   outstanding (run_events stale_tx_flag_events session_init) = [] \<and>
   busy (priv (run_events stale_tx_flag_events session_init))"
  by code_simp

end
